theory Spec2Isabelle
  imports Complex_Main "HOL-Library.Multiset"
begin

section \<open>JavaScript numbers\<close>

text \<open>
  A JavaScript \<^verbatim>\<open>number\<close> is a finite value, one of the two infinities or NaN.
  Finite values are kept as rationals. The two signed zeros are identified: the
  program never divides by a zero and never inspects the sign of a zero.
  An arithmetic operation of the runtime computes the exact result and rounds it
  to the nearest representable value; the rounding is the parameter \<open>rnd\<close> of the
  operations below, which answers \<open>None\<close> when the exact result is too large in
  magnitude and the operation overflows to an infinity of the same sign.
\<close>

datatype jsnum = Fin rat | PosInf | NegInf | NaN

type_synonym rounding = "rat \<Rightarrow> rat option"

definition js_round :: "rounding \<Rightarrow> rat \<Rightarrow> jsnum" where
  "js_round rnd q =
     (case rnd q of Some q' \<Rightarrow> Fin q' | None \<Rightarrow> (if q < 0 then NegInf else PosInf))"

text \<open>\<^verbatim>\<open>Number.isFinite(x)\<close>\<close>

fun isFinite :: "jsnum \<Rightarrow> bool" where
  "isFinite (Fin q) = True"
| "isFinite PosInf = False"
| "isFinite NegInf = False"
| "isFinite NaN = False"

text \<open>\<^verbatim>\<open>a <= b\<close>: every comparison with NaN is false.\<close>

fun js_le :: "jsnum \<Rightarrow> jsnum \<Rightarrow> bool" where
  "js_le NaN b = False"
| "js_le a NaN = False"
| "js_le NegInf b = True"
| "js_le a PosInf = True"
| "js_le (Fin p) (Fin q) = (p \<le> q)"
| "js_le (Fin p) NegInf = False"
| "js_le PosInf (Fin q) = False"
| "js_le PosInf NegInf = False"

text \<open>\<^verbatim>\<open>a > b\<close>\<close>

fun js_gt :: "jsnum \<Rightarrow> jsnum \<Rightarrow> bool" where
  "js_gt NaN b = False"
| "js_gt a NaN = False"
| "js_gt (Fin p) (Fin q) = (q < p)"
| "js_gt PosInf PosInf = False"
| "js_gt PosInf b = True"
| "js_gt a NegInf = (a \<noteq> NegInf)"
| "js_gt a PosInf = False"
| "js_gt NegInf b = False"

text \<open>\<^verbatim>\<open>a !== b\<close> on numbers: NaN differs from everything, itself included.\<close>

definition js_neq :: "jsnum \<Rightarrow> jsnum \<Rightarrow> bool" where
  "js_neq a b = (a = NaN \<or> b = NaN \<or> a \<noteq> b)"

text \<open>
  \<^verbatim>\<open>a - b\<close>. The program uses a difference only as the result of a sort
  comparator, where its sign alone is read; the sign of the rounded difference of two
  finite values is the sign of the exact one, so the difference is left exact.
\<close>

fun js_sub :: "jsnum \<Rightarrow> jsnum \<Rightarrow> jsnum" where
  "js_sub NaN b = NaN"
| "js_sub a NaN = NaN"
| "js_sub (Fin p) (Fin q) = Fin (p - q)"
| "js_sub PosInf PosInf = NaN"
| "js_sub NegInf NegInf = NaN"
| "js_sub PosInf b = PosInf"
| "js_sub NegInf b = NegInf"
| "js_sub (Fin p) PosInf = NegInf"
| "js_sub (Fin p) NegInf = PosInf"

text \<open>The sign of a number, as a sort reads a comparator's result (NaN counts as 0).\<close>

fun js_sign :: "jsnum \<Rightarrow> int" where
  "js_sign (Fin q) = (if q < 0 then - 1 else if q = 0 then 0 else 1)"
| "js_sign PosInf = 1"
| "js_sign NegInf = - 1"
| "js_sign NaN = 0"

text \<open>\<^verbatim>\<open>a * b\<close>\<close>

fun js_mul :: "rounding \<Rightarrow> jsnum \<Rightarrow> jsnum \<Rightarrow> jsnum" where
  "js_mul rnd (Fin p) (Fin q) = js_round rnd (p * q)"
| "js_mul rnd a b =
     (if a = NaN \<or> b = NaN \<or> js_sign a = 0 \<or> js_sign b = 0 then NaN
      else if js_sign a = js_sign b then PosInf else NegInf)"

text \<open>\<^verbatim>\<open>a / b\<close> (a zero divisor is taken as the positive zero).\<close>

fun js_div :: "rounding \<Rightarrow> jsnum \<Rightarrow> jsnum \<Rightarrow> jsnum" where
  "js_div rnd (Fin p) (Fin q) =
     (if q = 0 then (if p = 0 then NaN else if p < 0 then NegInf else PosInf)
      else js_round rnd (p / q))"
| "js_div rnd (Fin p) b = (if b = NaN then NaN else Fin 0)"
| "js_div rnd a (Fin q) =
     (if a = NaN then NaN
      else if (js_sign a = 1) = (0 \<le> q) then PosInf else NegInf)"
| "js_div rnd a b = NaN"

text \<open>\<^verbatim>\<open>a + b\<close>\<close>

fun js_add :: "rounding \<Rightarrow> jsnum \<Rightarrow> jsnum \<Rightarrow> jsnum" where
  "js_add rnd (Fin p) (Fin q) = js_round rnd (p + q)"
| "js_add rnd NaN b = NaN"
| "js_add rnd a NaN = NaN"
| "js_add rnd PosInf NegInf = NaN"
| "js_add rnd NegInf PosInf = NaN"
| "js_add rnd PosInf b = PosInf"
| "js_add rnd NegInf b = NegInf"
| "js_add rnd (Fin p) b = b"

text \<open>
  \<^verbatim>\<open>Math.round(x)\<close>: the integer nearest to \<open>x\<close>, a tie going up; an infinity and
  NaN are returned as they are. The result is representable, so nothing is rounded.
\<close>

fun Math_round :: "jsnum \<Rightarrow> jsnum" where
  "Math_round (Fin q) = Fin (of_int \<lfloor>q + 1 / 2\<rfloor>)"
| "Math_round x = x"

text \<open>\<^verbatim>\<open>Math.max(a, b)\<close>\<close>

definition Math_max :: "jsnum \<Rightarrow> jsnum \<Rightarrow> jsnum" where
  "Math_max a b = (if a = NaN \<or> b = NaN then NaN else if js_le a b then b else a)"

section \<open>Metric functions (src/utils/logic.ts)\<close>

text \<open>
  \<^verbatim>\<open>computeROI(revenue, timeTaken)\<close>; \<open>None\<close> is \<^verbatim>\<open>null\<close>. Both arguments are
  typed \<^verbatim>\<open>number\<close>, so the two \<^verbatim>\<open>typeof\<close> tests pass.
\<close>

definition computeROI :: "rounding \<Rightarrow> jsnum \<Rightarrow> jsnum \<Rightarrow> jsnum option" where
  "computeROI rnd revenue timeTaken =
     (if \<not> isFinite revenue then None
      else if \<not> isFinite timeTaken \<or> js_le timeTaken (Fin 0) then None
      else let val = js_div rnd revenue timeTaken in
        if \<not> isFinite val then None
        else Some (js_div rnd (Math_round (js_mul rnd val (Fin 100))) (Fin 100)))"

text \<open>The exact rounding (nothing is rounded, nothing overflows), used to run examples.\<close>

definition exact :: rounding where
  "exact q = Some q"

text \<open>
  A rounding that keeps every value below \<open>2 ^ 1024\<close> in magnitude as it is and
  overflows on the others, as double precision does on the powers of two and on the
  products beyond its largest value.
\<close>

definition overflowing :: rounding where
  "overflowing q = (if \<bar>q\<bar> < 2 ^ 1024 then Some q else None)"

section \<open>Tasks (the types of src/types, which the sources import)\<close>

text \<open>
  Modelled from the spec: the declarations of \<^verbatim>\<open>Task\<close> and \<^verbatim>\<open>DerivedTask\<close>
  (\<^verbatim>\<open>@/types\<close>) are not among the sources; the fields are those the spec's data model
  lists and the sources read and write. An optional field is an option, \<open>None\<close>
  standing for \<^verbatim>\<open>undefined\<close>. Timestamps are strings, as in the program.
\<close>

datatype Priority = High | Medium | Low

datatype Status = Todo | InProgress | Done

record Task =
  task_id :: string
  title :: string
  revenue :: jsnum
  timeTaken :: jsnum
  priority :: Priority
  status :: Status
  task_notes :: "string option"
  createdAt :: string
  completedAt :: "string option"

record DerivedTask = Task +
  roi :: "jsnum option"
  priorityWeight :: int

text \<open>Truthiness of a string, and of an optional string: empty and absent are falsy.\<close>

definition truthy :: "string \<Rightarrow> bool" where
  "truthy s = (s \<noteq> [])"

definition truthy_opt :: "string option \<Rightarrow> bool" where
  "truthy_opt v = (case v of None \<Rightarrow> False | Some s \<Rightarrow> truthy s)"

section \<open>The task store (src/hooks/useTasks.ts)\<close>

text \<open>
  The hook keeps two pieces of state, \<^verbatim>\<open>tasks\<close> and \<^verbatim>\<open>lastDeleted\<close>; every
  operation is a function from the state before to the state after. The current time
  (\<^verbatim>\<open>new Date().toISOString()\<close>) and the fresh identifier
  (\<^verbatim>\<open>crypto.randomUUID()\<close>) are arguments.
\<close>

record store =
  tasks :: "Task list"
  lastDeleted :: "Task option"

text \<open>
  The argument of \<^verbatim>\<open>addTask\<close>, of type \<^verbatim>\<open>Omit<Task, 'id'> & { id?: string }\<close>. Its
  \<^verbatim>\<open>createdAt\<close> and \<^verbatim>\<open>completedAt\<close> are overwritten by the object literal that
  \<^verbatim>\<open>addTask\<close> builds, whatever they hold, and are left out.
\<close>

record NewTask =
  n_id :: "string option"
  n_title :: string
  n_revenue :: jsnum
  n_timeTaken :: jsnum
  n_priority :: Priority
  n_status :: Status
  n_notes :: "string option"

definition addTask :: "string \<Rightarrow> string \<Rightarrow> NewTask \<Rightarrow> store \<Rightarrow> store" where
  "addTask now uuid task s =
     (let ident = (case n_id task of Some i \<Rightarrow> i | None \<Rightarrow> uuid);
          tt = (if js_le (n_timeTaken task) (Fin 0) then Fin 1 else n_timeTaken task);
          created = now;
          st = n_status task;
          completed = (if st = Done then Some created else None)
      in s\<lparr>tasks := tasks s @
           [\<lparr>task_id = ident, title = n_title task, revenue = n_revenue task,
             timeTaken = tt, priority = n_priority task, status = st,
             task_notes = n_notes task, createdAt = created, completedAt = completed\<rparr>]\<rparr>)"

text \<open>
  A patch, of type \<^verbatim>\<open>Partial<Task>\<close>: every key may be absent (\<open>None\<close>). A key that
  is present carries a value of the field's type; for the two optional fields that
  value may itself be \<^verbatim>\<open>undefined\<close>.
\<close>

record Patch =
  p_id :: "string option"
  p_title :: "string option"
  p_revenue :: "jsnum option"
  p_timeTaken :: "jsnum option"
  p_priority :: "Priority option"
  p_status :: "Status option"
  p_notes :: "string option option"
  p_createdAt :: "string option"
  p_completedAt :: "string option option"

text \<open>\<^verbatim>\<open>{ ...t, ...patch }\<close>: every key of the patch replaces the task's.\<close>

definition merge_patch :: "Task \<Rightarrow> Patch \<Rightarrow> Task" where
  "merge_patch t p =
     \<lparr>task_id = (case p_id p of Some v \<Rightarrow> v | None \<Rightarrow> task_id t),
      title = (case p_title p of Some v \<Rightarrow> v | None \<Rightarrow> title t),
      revenue = (case p_revenue p of Some v \<Rightarrow> v | None \<Rightarrow> revenue t),
      timeTaken = (case p_timeTaken p of Some v \<Rightarrow> v | None \<Rightarrow> timeTaken t),
      priority = (case p_priority p of Some v \<Rightarrow> v | None \<Rightarrow> priority t),
      status = (case p_status p of Some v \<Rightarrow> v | None \<Rightarrow> status t),
      task_notes = (case p_notes p of Some v \<Rightarrow> v | None \<Rightarrow> task_notes t),
      createdAt = (case p_createdAt p of Some v \<Rightarrow> v | None \<Rightarrow> createdAt t),
      completedAt = (case p_completedAt p of Some v \<Rightarrow> v | None \<Rightarrow> completedAt t)\<rparr>"

text \<open>The first \<^verbatim>\<open>map\<close> of \<^verbatim>\<open>updateTask\<close>: merge, then stamp the completion.\<close>

definition update_merge :: "string \<Rightarrow> string \<Rightarrow> Patch \<Rightarrow> Task \<Rightarrow> Task" where
  "update_merge now ident patch t =
     (if task_id t \<noteq> ident then t
      else let merged = merge_patch t patch in
        if status t \<noteq> Done \<and> status merged = Done \<and> \<not> truthy_opt (completedAt merged)
        then merged\<lparr>completedAt := Some now\<rparr>
        else merged)"

text \<open>The second \<^verbatim>\<open>map\<close>, under the comment \<^verbatim>\<open>Ensure timeTaken remains > 0\<close>.\<close>

definition update_clamp :: "string \<Rightarrow> Patch \<Rightarrow> Task \<Rightarrow> Task" where
  "update_clamp ident patch t =
     (if task_id t = ident \<and>
         js_le (case p_timeTaken patch of Some v \<Rightarrow> v | None \<Rightarrow> timeTaken t) (Fin 0)
      then t\<lparr>timeTaken := Fin 1\<rparr> else t)"

definition updateTask :: "string \<Rightarrow> string \<Rightarrow> Patch \<Rightarrow> store \<Rightarrow> store" where
  "updateTask now ident patch s =
     (let next = map (update_merge now ident patch) (tasks s)
      in s\<lparr>tasks := map (update_clamp ident patch) next\<rparr>)"

text \<open>
  \<^verbatim>\<open>deleteTask\<close>: \<^verbatim>\<open>prev.find(...) || null\<close> is the first task with the
  identifier, or null; it is stored in \<^verbatim>\<open>lastDeleted\<close> in either case.
\<close>

definition deleteTask :: "string \<Rightarrow> store \<Rightarrow> store" where
  "deleteTask ident s =
     (let target = find (\<lambda>t. task_id t = ident) (tasks s)
      in \<lparr>tasks = filter (\<lambda>t. task_id t \<noteq> ident) (tasks s), lastDeleted = target\<rparr>)"

definition undoDelete :: "store \<Rightarrow> store" where
  "undoDelete s =
     (case lastDeleted s of
        None \<Rightarrow> s
      | Some t \<Rightarrow> \<lparr>tasks = tasks s @ [t], lastDeleted = None\<rparr>)"

definition dismissLastDeleted :: "store \<Rightarrow> store" where
  "dismissLastDeleted s = s\<lparr>lastDeleted := None\<rparr>"

text \<open>
  A sequence of \<^verbatim>\<open>addTask\<close> and \<^verbatim>\<open>updateTask\<close> calls, run from left to right.
\<close>

datatype store_op = Add string string NewTask | Update string string Patch

fun apply_op :: "store \<Rightarrow> store_op \<Rightarrow> store" where
  "apply_op s (Add now uuid task) = addTask now uuid task s"
| "apply_op s (Update now ident patch) = updateTask now ident patch s"

definition run_ops :: "store \<Rightarrow> store_op list \<Rightarrow> store" where
  "run_ops s ops = foldl apply_op s ops"

text \<open>
  The calls on which the clamp of \<^verbatim>\<open>timeTaken\<close> works: the value is not NaN, and a
  patch does not replace the identifier by another one.
\<close>

fun clampable :: "store_op \<Rightarrow> bool" where
  "clampable (Add now uuid task) = (n_timeTaken task \<noteq> NaN)"
| "clampable (Update now ident patch) =
     ((p_id patch = None \<or> p_id patch = Some ident) \<and> p_timeTaken patch \<noteq> Some NaN)"

text \<open>The empty patch, and a task to run examples on.\<close>

definition no_patch :: Patch where
  "no_patch = \<lparr>p_id = None, p_title = None, p_revenue = None, p_timeTaken = None,
     p_priority = None, p_status = None, p_notes = None, p_createdAt = None,
     p_completedAt = None\<rparr>"

definition sample :: "string \<Rightarrow> string \<Rightarrow> Task" where
  "sample i ttl = \<lparr>task_id = i, title = ttl, revenue = Fin 100, timeTaken = Fin 5,
     priority = High, status = Todo, task_notes = None,
     createdAt = ''2024-01-01T00:00:00.000Z'', completedAt = None\<rparr>"

definition sample_new :: "jsnum \<Rightarrow> NewTask" where
  "sample_new tt = \<lparr>n_id = Some ''n'', n_title = ''new'', n_revenue = Fin 100,
     n_timeTaken = tt, n_priority = Low, n_status = Todo, n_notes = None\<rparr>"

text \<open>
  The store after two calls of \<^verbatim>\<open>addTask\<close> that supply the same \<^verbatim>\<open>id\<close>, from the
  empty store.
\<close>

definition twins :: store where
  "twins = run_ops \<lparr>tasks = [], lastDeleted = None\<rparr>
     [Add ''2024-02-02T00:00:00.000Z'' ''u'' (sample_new (Fin 5)),
      Add ''2024-02-03T00:00:00.000Z'' ''v'' (sample_new (Fin 7))]"

section \<open>Derivation and ranking (src/utils/logic.ts)\<close>

fun computePriorityWeight :: "Priority \<Rightarrow> int" where
  "computePriorityWeight High = 3"
| "computePriorityWeight Medium = 2"
| "computePriorityWeight _ = 1"

text \<open>\<^verbatim>\<open>withDerived\<close>: the task's own fields, and the two derived ones.\<close>

definition withDerived :: "rounding \<Rightarrow> Task \<Rightarrow> DerivedTask" where
  "withDerived rnd task =
     Task.extend task
       (DerivedTask.fields (computeROI rnd (revenue task) (timeTaken task))
          (computePriorityWeight (priority task)))"

text \<open>
  \<^verbatim>\<open>String.prototype.localeCompare\<close> belongs to the runtime and collates by locale.
  Where the program compares free text (the titles, identifiers and timestamps of
  \<^verbatim>\<open>sortTasks\<close>) the collation is an argument, of which the properties ask only that
  it is a consistent ordering: its sign flips with its arguments, and it is transitive.
\<close>

type_synonym collation = "string \<Rightarrow> string \<Rightarrow> int"

definition consistent_collation :: "collation \<Rightarrow> bool" where
  "consistent_collation lc =
     ((\<forall>a b. sgn (lc a b) = - sgn (lc b a))
      \<and> (\<forall>a b c. lc a b \<le> 0 \<and> lc b c \<le> 0 \<longrightarrow> lc a c \<le> 0))"

text \<open>
  The week keys of \<^verbatim>\<open>computeThroughputByWeek\<close> are made of digits, \<^verbatim>\<open>-\<close>, \<^verbatim>\<open>W\<close> and
  \<^verbatim>\<open>NaN\<close>, which the collation of the runtime orders as their character codes do.
  \<open>localeCompare\<close> is that comparison, character by character, the first difference
  deciding and a proper prefix coming first, with the results \<open>-1\<close>, \<open>0\<close> and \<open>1\<close>; it
  also serves as the collation of the examples.
\<close>

fun localeCompare :: "string \<Rightarrow> string \<Rightarrow> int" where
  "localeCompare [] [] = 0"
| "localeCompare [] (y # ys) = - 1"
| "localeCompare (x # xs) [] = 1"
| "localeCompare (x # xs) (y # ys) =
     (if x = y then localeCompare xs ys
      else if (of_char x :: nat) < of_char y then - 1 else 1)"

text \<open>
  \<^verbatim>\<open>Array.prototype.sort(comparefn)\<close>. The language leaves the algorithm to the engine.
  It asks that the result is a permutation of the array and, when the comparator is a
  consistent comparison function for the elements, that the result is in the
  comparator's order, with the elements that compare equal in their original order (the
  sort is stable); when the comparator is not consistent, the order is the engine's
  choice. A NaN result of the comparator counts as 0. The array sorted is a copy
  wherever the program sorts (\<^verbatim>\<open>[...tasks]\<close>, \<^verbatim>\<open>slice()\<close>, \<^verbatim>\<open>Array.from\<close>); here the
  argument is a value and the result a new list.

  A comparator is consistent for a set of values, in the words of the language, when on
  these values its result is never NaN, every value compares equal to itself, to
  compare equal is symmetric and transitive, and to compare less and to compare greater
  are transitive. (That it answers the same on the same arguments and changes nothing
  holds of a function.) \<open>engine_sort\<close> is what the language asks of a sort. Where the
  order of the result matters to a property (\<^verbatim>\<open>sortTasks\<close>,
  \<^verbatim>\<open>computeVelocityByPriority\<close>), the sort of the engine is an argument.
\<close>

definition consistent :: "('a \<Rightarrow> 'a \<Rightarrow> jsnum) \<Rightarrow> 'a set \<Rightarrow> bool" where
  "consistent cmp S =
     (\<forall>a \<in> S. \<forall>b \<in> S. \<forall>c \<in> S.
        cmp a b \<noteq> NaN
        \<and> js_sign (cmp a a) = 0
        \<and> (js_sign (cmp a b) = 0 \<longrightarrow> js_sign (cmp b a) = 0)
        \<and> (js_sign (cmp a b) = 0 \<and> js_sign (cmp b c) = 0 \<longrightarrow> js_sign (cmp a c) = 0)
        \<and> (js_sign (cmp a b) < 0 \<and> js_sign (cmp b c) < 0 \<longrightarrow> js_sign (cmp a c) < 0)
        \<and> (0 < js_sign (cmp a b) \<and> 0 < js_sign (cmp b c) \<longrightarrow> 0 < js_sign (cmp a c)))"

definition engine_sort :: "(('a \<Rightarrow> 'a \<Rightarrow> jsnum) \<Rightarrow> 'a list \<Rightarrow> 'a list) \<Rightarrow> bool" where
  "engine_sort srt =
     (\<forall>cmp xs.
        mset (srt cmp xs) = mset xs
        \<and> (consistent cmp (set xs) \<longrightarrow>
             sorted_wrt (\<lambda>a b. \<not> js_gt (cmp a b) (Fin 0)) (srt cmp xs)
             \<and> (\<forall>a \<in> set xs.
                   filter (\<lambda>b. js_sign (cmp a b) = 0) (srt cmp xs)
                   = filter (\<lambda>b. js_sign (cmp a b) = 0) xs)))"

text \<open>
  The stable insertion: an element moves behind another exactly when \<^verbatim>\<open>comparefn\<close> of
  the two is greater than 0. It is a sort as the language asks (\<open>Array_sort_engine\<close>), and
  on a consistent comparator every such sort returns its result
  (\<open>engine_sort_unique\<close>). It stands for the sort of \<^verbatim>\<open>computeThroughputByWeek\<close>, whose
  comparator is consistent on every input, and runs the examples.
\<close>

fun sort_insert :: "('a \<Rightarrow> 'a \<Rightarrow> jsnum) \<Rightarrow> 'a \<Rightarrow> 'a list \<Rightarrow> 'a list" where
  "sort_insert cmp x [] = [x]"
| "sort_insert cmp x (y # ys) =
     (if js_gt (cmp x y) (Fin 0) then y # sort_insert cmp x ys else x # y # ys)"

fun Array_sort :: "('a \<Rightarrow> 'a \<Rightarrow> jsnum) \<Rightarrow> 'a list \<Rightarrow> 'a list" where
  "Array_sort cmp [] = []"
| "Array_sort cmp (x # xs) = sort_insert cmp x (Array_sort cmp xs)"

text \<open>
  The comparator of \<^verbatim>\<open>sortTasks\<close>; \<^verbatim>\<open>a.roi ?? -Infinity\<close> is \<open>roi_or_neginf\<close>. A
  task has a \<^verbatim>\<open>title\<close> and an \<^verbatim>\<open>id\<close>, so that \<^verbatim>\<open>a.title ?? ''\<close> and
  \<^verbatim>\<open>a.id ?? ''\<close> are the fields themselves.
\<close>

definition roi_or_neginf :: "DerivedTask \<Rightarrow> jsnum" where
  "roi_or_neginf a = (case roi a of Some v \<Rightarrow> v | None \<Rightarrow> NegInf)"

definition sortTasks_cmp :: "collation \<Rightarrow> DerivedTask \<Rightarrow> DerivedTask \<Rightarrow> jsnum" where
  "sortTasks_cmp lc a b =
     (let aROI = roi_or_neginf a; bROI = roi_or_neginf b in
      if js_neq bROI aROI then js_sub bROI aROI
      else if priorityWeight b \<noteq> priorityWeight a
        then Fin (of_int (priorityWeight b - priorityWeight a))
      else if truthy (createdAt a) \<and> truthy (createdAt b)
              \<and> lc (createdAt b) (createdAt a) \<noteq> 0
        then Fin (of_int (lc (createdAt b) (createdAt a)))
      else let titleCmp = lc (title a) (title b) in
        if titleCmp \<noteq> 0 then Fin (of_int titleCmp)
        else Fin (of_int (lc (task_id a) (task_id b))))"

definition sortTasks ::
  "((DerivedTask \<Rightarrow> DerivedTask \<Rightarrow> jsnum) \<Rightarrow> DerivedTask list \<Rightarrow> DerivedTask list)
     \<Rightarrow> collation \<Rightarrow> DerivedTask list \<Rightarrow> DerivedTask list" where
  "sortTasks srt lc ts = srt (sortTasks_cmp lc) ts"

text \<open>
  The comparator that asks a second one where the first finds no difference; the
  comparator of \<^verbatim>\<open>sortTasks\<close> is five comparators chained so.
\<close>

definition lex_cmp :: "('a \<Rightarrow> 'a \<Rightarrow> jsnum) \<Rightarrow> ('a \<Rightarrow> 'a \<Rightarrow> jsnum) \<Rightarrow> 'a \<Rightarrow> 'a \<Rightarrow> jsnum" where
  "lex_cmp c1 c2 a b = (if js_sign (c1 a b) \<noteq> 0 then c1 a b else c2 a b)"

text \<open>Three tasks to rank: returns 20 and 140 an hour, and one with no time taken.\<close>

definition ranked :: "Task list" where
  "ranked = [sample ''a'' ''A'', (sample ''b'' ''B'')\<lparr>timeTaken := Fin 0\<rparr>,
     (sample ''c'' ''C'')\<lparr>revenue := Fin 700\<rparr>]"

text \<open>
  Three derived tasks as the type \<^verbatim>\<open>DerivedTask\<close> admits them, the \<open>roi\<close> of the second
  one a NaN.
\<close>

definition with_roi :: "Task \<Rightarrow> jsnum option \<Rightarrow> DerivedTask" where
  "with_roi t r = Task.extend t (DerivedTask.fields r 3)"

definition nan_between :: "DerivedTask list" where
  "nan_between = [with_roi (sample ''a'' ''A'') None, with_roi (sample ''b'' ''B'') (Some NaN),
     with_roi (sample ''c'' ''C'') (Some (Fin 5))]"

section \<open>Dates (the runtime's \<^verbatim>\<open>Date\<close>)\<close>

text \<open>
  A \<^verbatim>\<open>Date\<close> holds a time value, the milliseconds since 1970-01-01T00:00:00Z, or NaN
  when the date is invalid (\<open>None\<close>). The functions below are the ones of the language
  standard that the program calls, on the proleptic Gregorian calendar in UTC.
\<close>

type_synonym Date = "int option"

definition msPerDay :: int where
  "msPerDay = 86400000"

definition Day :: "int \<Rightarrow> int" where
  "Day t = t div msPerDay"

definition TimeWithinDay :: "int \<Rightarrow> int" where
  "TimeWithinDay t = t mod msPerDay"

text \<open>The day number of a calendar date (month 1 to 12), and the date of a day number.\<close>

definition days_from_civil :: "int \<Rightarrow> int \<Rightarrow> int \<Rightarrow> int" where
  "days_from_civil y m d =
     (let y' = (if m \<le> 2 then y - 1 else y);
          era = y' div 400;
          yoe = y' mod 400;
          doy = (153 * (if 2 < m then m - 3 else m + 9) + 2) div 5 + d - 1;
          doe = yoe * 365 + yoe div 4 - yoe div 100 + doy
      in era * 146097 + doe - 719468)"

definition civil_from_days :: "int \<Rightarrow> int \<times> int \<times> int" where
  "civil_from_days z =
     (let z' = z + 719468;
          era = z' div 146097;
          doe = z' mod 146097;
          yoe = (doe - doe div 1460 + doe div 36524 - doe div 146096) div 365;
          doy = doe - (365 * yoe + yoe div 4 - yoe div 100);
          mp = (5 * doy + 2) div 153;
          d = doy - (153 * mp + 2) div 5 + 1;
          m = (if mp < 10 then mp + 3 else mp - 9);
          y = yoe + era * 400
      in (if m \<le> 2 then y + 1 else y, m, d))"

definition YearFromTime :: "int \<Rightarrow> int" where
  "YearFromTime t = fst (civil_from_days (Day t))"

text \<open>The month of the year, counted from 0 as \<^verbatim>\<open>getUTCMonth\<close> does.\<close>

definition MonthFromTime :: "int \<Rightarrow> int" where
  "MonthFromTime t = fst (snd (civil_from_days (Day t))) - 1"

definition DateFromTime :: "int \<Rightarrow> int" where
  "DateFromTime t = snd (snd (civil_from_days (Day t)))"

text \<open>The day of the week, 0 for Sunday.\<close>

definition WeekDay :: "int \<Rightarrow> int" where
  "WeekDay t = (Day t + 4) mod 7"

text \<open>\<^verbatim>\<open>MakeDay\<close>: a month outside 0 to 11 and a day outside the month carry over.\<close>

definition MakeDay :: "int \<Rightarrow> int \<Rightarrow> int \<Rightarrow> int" where
  "MakeDay year month date =
     days_from_civil (year + month div 12) (month mod 12 + 1) 1 + date - 1"

definition TimeClip :: "int \<Rightarrow> Date" where
  "TimeClip t = (if \<bar>t\<bar> \<le> 8640000000000000 then Some t else None)"

text \<open>
  \<^verbatim>\<open>new Date(Date.UTC(year, month, date))\<close>; \<^verbatim>\<open>Date.UTC\<close> reads a year from 0 to
  99 as a year of the twentieth century.
\<close>

definition Date_UTC :: "int \<Rightarrow> int \<Rightarrow> int \<Rightarrow> Date" where
  "Date_UTC year month date =
     (let yr = (if 0 \<le> year \<and> year \<le> 99 then 1900 + year else year)
      in TimeClip (MakeDay yr month date * msPerDay))"

text \<open>\<^verbatim>\<open>d.setUTCDate(date)\<close>, as the date it leaves in \<open>d\<close>.\<close>

definition setUTCDate :: "int \<Rightarrow> int \<Rightarrow> Date" where
  "setUTCDate t date =
     TimeClip (MakeDay (YearFromTime t) (MonthFromTime t) date * msPerDay + TimeWithinDay t)"

definition getUTCFullYear :: "Date \<Rightarrow> int option" where
  "getUTCFullYear d = map_option YearFromTime d"

text \<open>
  Numbers in a template literal: the decimal digits of an integer, and \<^verbatim>\<open>NaN\<close>.
\<close>

fun digits :: "nat \<Rightarrow> string" where
  "digits n = (if n < 10 then [char_of (48 + n)] else digits (n div 10) @ [char_of (48 + n mod 10)])"

definition show_int :: "int \<Rightarrow> string" where
  "show_int k = (if k < 0 then CHR ''-'' # digits (nat (- k)) else digits (nat k))"

definition show_num :: "int option \<Rightarrow> string" where
  "show_num v = (case v of None \<Rightarrow> ''NaN'' | Some k \<Rightarrow> show_int k)"

definition pad :: "nat \<Rightarrow> nat \<Rightarrow> string" where
  "pad width n = replicate (width - length (digits n)) CHR ''0'' @ digits n"

text \<open>
  \<^verbatim>\<open>new Date(string)\<close> belongs to the runtime, which reads the date-time format of the
  language and, beyond it, what the engine chooses to read. In \<^verbatim>\<open>normalizeTasks\<close> and
  \<^verbatim>\<open>daysBetween\<close> the reading is an argument, \<open>parse\<close>, and their properties hold for
  every reading.

  \<open>Date_parse\<close> reads the format of the language where it names an instant: a date
  \<^verbatim>\<open>YYYY\<close>, \<^verbatim>\<open>YYYY-MM\<close> or \<^verbatim>\<open>YYYY-MM-DD\<close>, alone or followed by \<^verbatim>\<open>T\<close>, a time
  \<^verbatim>\<open>HH:mm\<close>, \<^verbatim>\<open>HH:mm:ss\<close> or \<^verbatim>\<open>HH:mm:ss.sss\<close> and a zone \<^verbatim>\<open>Z\<close>, \<^verbatim>\<open>+HH:mm\<close> or
  \<^verbatim>\<open>-HH:mm\<close>; this covers what \<^verbatim>\<open>toISOString\<close> writes. A day up to 31 beyond the end
  of its month carries over into the next. A time without a zone is a local time,
  which depends on the machine, and is not read here, nor are the years of more than
  four digits and the formats outside the language; on those \<open>Date_parse\<close> answers an
  invalid date. It is the reading of \<^verbatim>\<open>computeThroughputByWeek\<close> and of the examples.
\<close>

definition digit_of :: "char \<Rightarrow> nat option" where
  "digit_of c = (let k = (of_char c :: nat) in if 48 \<le> k \<and> k \<le> 57 then Some (k - 48) else None)"

fun number_of :: "nat \<Rightarrow> string \<Rightarrow> nat option" where
  "number_of acc [] = Some acc"
| "number_of acc (c # cs) =
     (case digit_of c of None \<Rightarrow> None | Some k \<Rightarrow> number_of (10 * acc + k) cs)"

definition field :: "string \<Rightarrow> nat \<Rightarrow> nat \<Rightarrow> nat option" where
  "field s from len = (if length s < from + len then None else number_of 0 (take len (drop from s)))"

text \<open>The day number of the date part.\<close>

definition parse_date :: "string \<Rightarrow> int option" where
  "parse_date s =
     (if length s = 4 then
        (case field s 0 4 of
           Some y \<Rightarrow> Some (days_from_civil (int y) 1 1)
         | None \<Rightarrow> None)
      else if length s = 7 \<and> s ! 4 = CHR ''-'' then
        (case (field s 0 4, field s 5 2) of
           (Some y, Some m) \<Rightarrow>
             if 1 \<le> m \<and> m \<le> 12 then Some (days_from_civil (int y) (int m) 1) else None
         | _ \<Rightarrow> None)
      else if length s = 10 \<and> s ! 4 = CHR ''-'' \<and> s ! 7 = CHR ''-'' then
        (case (field s 0 4, field s 5 2, field s 8 2) of
           (Some y, Some m, Some d) \<Rightarrow>
             if 1 \<le> m \<and> m \<le> 12 \<and> 1 \<le> d \<and> d \<le> 31
             then Some (days_from_civil (int y) (int m) 1 + int d - 1)
             else None
         | _ \<Rightarrow> None)
      else None)"

text \<open>The milliseconds of the time of day, \<^verbatim>\<open>24:00:00\<close> being the end of the day.\<close>

definition clock :: "nat \<Rightarrow> nat \<Rightarrow> nat \<Rightarrow> nat \<Rightarrow> int option" where
  "clock h mi sec ms =
     (if (h \<le> 23 \<and> mi \<le> 59 \<and> sec \<le> 59) \<or> (h = 24 \<and> mi = 0 \<and> sec = 0 \<and> ms = 0)
      then Some (((int h * 60 + int mi) * 60 + int sec) * 1000 + int ms)
      else None)"

definition parse_clock :: "string \<Rightarrow> int option" where
  "parse_clock s =
     (if length s = 5 \<and> s ! 2 = CHR '':'' then
        (case (field s 0 2, field s 3 2) of
           (Some h, Some mi) \<Rightarrow> clock h mi 0 0
         | _ \<Rightarrow> None)
      else if length s = 8 \<and> s ! 2 = CHR '':'' \<and> s ! 5 = CHR '':'' then
        (case (field s 0 2, field s 3 2, field s 6 2) of
           (Some h, Some mi, Some sec) \<Rightarrow> clock h mi sec 0
         | _ \<Rightarrow> None)
      else if length s = 12 \<and> s ! 2 = CHR '':'' \<and> s ! 5 = CHR '':'' \<and> s ! 8 = CHR ''.'' then
        (case (field s 0 2, field s 3 2, field s 6 2, field s 9 3) of
           (Some h, Some mi, Some sec, Some ms) \<Rightarrow> clock h mi sec ms
         | _ \<Rightarrow> None)
      else None)"

text \<open>The milliseconds by which the zone is ahead of UTC.\<close>

definition parse_zone :: "string \<Rightarrow> int option" where
  "parse_zone s =
     (if s = ''Z'' then Some 0
      else if length s = 6 \<and> (s ! 0 = CHR ''+'' \<or> s ! 0 = CHR ''-'') \<and> s ! 3 = CHR '':'' then
        (case (field s 1 2, field s 4 2) of
           (Some h, Some mi) \<Rightarrow>
             if h \<le> 23 \<and> mi \<le> 59
             then Some ((if s ! 0 = CHR ''-'' then - 1 else 1) * (int h * 60 + int mi) * 60000)
             else None
         | _ \<Rightarrow> None)
      else None)"

text \<open>The time after the \<^verbatim>\<open>T\<close>: the time of day, less what the zone is ahead.\<close>

definition parse_time :: "string \<Rightarrow> int option" where
  "parse_time s =
     (let n = (if s \<noteq> [] \<and> last s = CHR ''Z'' then 1 else 6) in
      if length s < n then None
      else (case (parse_clock (take (length s - n) s), parse_zone (drop (length s - n) s)) of
              (Some ms, Some ahead) \<Rightarrow> Some (ms - ahead)
            | _ \<Rightarrow> None))"

definition Date_parse :: "string \<Rightarrow> Date" where
  "Date_parse s =
     (case parse_date (takeWhile (\<lambda>c. c \<noteq> CHR ''T'') s) of
        None \<Rightarrow> None
      | Some day \<Rightarrow>
          (case dropWhile (\<lambda>c. c \<noteq> CHR ''T'') s of
             [] \<Rightarrow> TimeClip (day * msPerDay)
           | c # time \<Rightarrow>
               (case parse_time time of
                  None \<Rightarrow> None
                | Some ms \<Rightarrow> TimeClip (day * msPerDay + ms))))"

text \<open>
  \<^verbatim>\<open>d.toISOString()\<close>; it throws a \<^verbatim>\<open>RangeError\<close> on an invalid date. A year outside
  0 to 9999 is written with a sign and six digits.
\<close>

datatype js_error = RangeError

definition toISOString :: "Date \<Rightarrow> js_error + string" where
  "toISOString d =
     (case d of
        None \<Rightarrow> Inl RangeError
      | Some t \<Rightarrow>
          (let y = YearFromTime t; w = TimeWithinDay t;
               year = (if 0 \<le> y \<and> y \<le> 9999 then pad 4 (nat y)
                       else (if y < 0 then CHR ''-'' else CHR ''+'') # pad 6 (nat \<bar>y\<bar>))
           in Inr (year @ ''-'' @ pad 2 (nat (MonthFromTime t + 1)) @ ''-''
                @ pad 2 (nat (DateFromTime t)) @ ''T''
                @ pad 2 (nat (w div 3600000)) @ '':''
                @ pad 2 (nat (w div 60000 mod 60)) @ '':''
                @ pad 2 (nat (w div 1000 mod 60)) @ ''.''
                @ pad 3 (nat (w mod 1000)) @ ''Z'')))"

text \<open>\<^verbatim>\<open>new Date(s).getTime()\<close>, a number.\<close>

definition getTime :: "Date \<Rightarrow> jsnum" where
  "getTime d = (case d of None \<Rightarrow> NaN | Some t \<Rightarrow> Fin (of_int t))"

section \<open>Aggregate analytics (src/utils/logic.ts)\<close>

text \<open>
  \<^verbatim>\<open>daysBetween\<close>, with the reading of the runtime as \<open>parse\<close>. The difference of two
  time values is exact; the quotient is rounded by the runtime.
\<close>

definition daysBetween :: "(string \<Rightarrow> Date) \<Rightarrow> rounding \<Rightarrow> string \<Rightarrow> string \<Rightarrow> jsnum" where
  "daysBetween parse rnd aISO bISO =
     (let a = getTime (parse aISO);
          b = getTime (parse bISO)
      in Math_max (Fin 0) (Math_round (js_div rnd (js_sub b a) (Fin (24 * 3600 * 1000)))))"

text \<open>
  \<^verbatim>\<open>computeVelocityByPriority\<close>, with the sort of the engine as \<open>srt\<close>. The body of the
  first \<^verbatim>\<open>forEach\<close> pushes onto the group of the task's priority; the second computes
  the statistics of each group.
\<close>

definition groups_push ::
  "(string \<Rightarrow> Date) \<Rightarrow> rounding \<Rightarrow> (Priority \<Rightarrow> jsnum list) \<Rightarrow> Task
     \<Rightarrow> (Priority \<Rightarrow> jsnum list)" where
  "groups_push parse rnd groups t =
     (case completedAt t of
        None \<Rightarrow> groups
      | Some c \<Rightarrow>
          if truthy c
          then groups(priority t := groups (priority t) @ [daysBetween parse rnd (createdAt t) c])
          else groups)"

record stats =
  avgDays :: jsnum
  medianDays :: jsnum

definition group_stats ::
  "((jsnum \<Rightarrow> jsnum \<Rightarrow> jsnum) \<Rightarrow> jsnum list \<Rightarrow> jsnum list) \<Rightarrow> rounding \<Rightarrow> jsnum list \<Rightarrow> stats" where
  "group_stats srt rnd g =
     (let arr = srt (\<lambda>a b. js_sub a b) g;
          avg = (if arr \<noteq> []
                 then js_div rnd (foldl (js_add rnd) (Fin 0) arr) (Fin (of_nat (length arr)))
                 else Fin 0);
          mid = (if arr \<noteq> [] then arr ! (length arr div 2) else Fin 0)
      in \<lparr>avgDays = avg, medianDays = mid\<rparr>)"

definition computeVelocityByPriority ::
  "((jsnum \<Rightarrow> jsnum \<Rightarrow> jsnum) \<Rightarrow> jsnum list \<Rightarrow> jsnum list) \<Rightarrow> (string \<Rightarrow> Date) \<Rightarrow> rounding
     \<Rightarrow> Task list \<Rightarrow> Priority \<Rightarrow> stats" where
  "computeVelocityByPriority srt parse rnd ts =
     (let groups = foldl (groups_push parse rnd) (\<lambda>k. []) ts
      in (\<lambda>k. group_stats srt rnd (groups k)))"

text \<open>
  \<^verbatim>\<open>getWeekNumber\<close>; the result is NaN (\<open>None\<close>) on an invalid date. The difference
  of the two midnights is a whole number of days, so that the rounding of the quotient
  by the runtime does not change what \<^verbatim>\<open>Math.round\<close> returns.
\<close>

definition getWeekNumber :: "Date \<Rightarrow> int option" where
  "getWeekNumber d =
     (case d of
        None \<Rightarrow> None
      | Some t \<Rightarrow>
          (case Date_UTC (YearFromTime t) (MonthFromTime t) (DateFromTime t) of
             None \<Rightarrow> None
           | Some target0 \<Rightarrow>
               (let dayNr = (WeekDay target0 + 6) mod 7 in
                case setUTCDate target0 (DateFromTime target0 - dayNr + 3) of
                  None \<Rightarrow> None
                | Some target \<Rightarrow>
                    (case Date_UTC (YearFromTime target) 0 4 of
                       None \<Rightarrow> None
                     | Some firstThursday \<Rightarrow>
                         (let diff = target - firstThursday
                          in Some (1 + \<lfloor>(of_int diff :: rat) / (7 * 24 * 3600 * 1000) + 1 / 2\<rfloor>))))))"

text \<open>The key \<^verbatim>\<open>`${d.getUTCFullYear()}-W${getWeekNumber(d)}`\<close>.\<close>

definition weekKey :: "Date \<Rightarrow> string" where
  "weekKey d = show_num (getUTCFullYear d) @ ''-W'' @ show_num (getWeekNumber d)"

text \<open>
  A \<^verbatim>\<open>Map\<close> keeps its keys in the order of their first insertion: \<^verbatim>\<open>set\<close> replaces
  the value of a key that is there and appends a new key.
\<close>

fun Map_set :: "('k \<times> 'v) list \<Rightarrow> 'k \<Rightarrow> 'v \<Rightarrow> ('k \<times> 'v) list" where
  "Map_set [] k v = [(k, v)]"
| "Map_set ((k', v') # m) k v = (if k' = k then (k, v) # m else (k', v') # Map_set m k v)"

definition Map_get :: "('k \<times> 'v) list \<Rightarrow> 'k \<Rightarrow> 'v option" where
  "Map_get m k = map_of m k"

record WeekRow =
  week :: string
  week_count :: int
  week_revenue :: jsnum

text \<open>The body of the \<^verbatim>\<open>forEach\<close> of \<^verbatim>\<open>computeThroughputByWeek\<close>.\<close>

definition byWeek_step ::
  "rounding \<Rightarrow> (string \<times> int \<times> jsnum) list \<Rightarrow> Task \<Rightarrow> (string \<times> int \<times> jsnum) list" where
  "byWeek_step rnd byWeek t =
     (case completedAt t of
        None \<Rightarrow> byWeek
      | Some c \<Rightarrow>
          if \<not> truthy c then byWeek
          else let d = Date_parse c;
                   key = weekKey d;
                   v = (case Map_get byWeek key of Some v \<Rightarrow> v | None \<Rightarrow> (0, Fin 0))
               in Map_set byWeek key (fst v + 1, js_add rnd (snd v) (revenue t)))"

definition computeThroughputByWeek :: "rounding \<Rightarrow> Task list \<Rightarrow> WeekRow list" where
  "computeThroughputByWeek rnd ts =
     (let byWeek = foldl (byWeek_step rnd) [] ts
      in map (\<lambda>(wk, v). \<lparr>week = wk, week_count = fst v, week_revenue = snd v\<rparr>)
           (Array_sort (\<lambda>a b. Fin (of_int (localeCompare (fst a) (fst b)))) byWeek))"

section \<open>Ingestion (src/hooks/useTasks.ts)\<close>

text \<open>
  A record of the array given to \<^verbatim>\<open>normalizeTasks\<close>, typed \<^verbatim>\<open>any\<close> in the source.
  Every field may be missing; a field that is present holds a value of the kind the
  source expects (a string, a number), so that \<^verbatim>\<open>Number(x)\<close> is \<open>x\<close> on a number and NaN
  on a missing one. The generated identifier of the record at an index is the
  argument \<open>genId\<close>, \<^verbatim>\<open>Date.now()\<close> the argument \<open>now\<close> and the reading of a timestamp by the
  runtime the argument \<open>parse\<close>. The input is a list, so that \<^verbatim>\<open>Array.isArray(input)\<close>
  holds.
\<close>

record RawTask =
  r_id :: "string option"
  r_title :: "string option"
  r_revenue :: "jsnum option"
  r_timeTaken :: "jsnum option"
  r_priority :: Priority
  r_status :: Status
  r_notes :: "string option"
  r_createdAt :: "string option"
  r_completedAt :: "string option"

definition Number_of :: "jsnum option \<Rightarrow> jsnum" where
  "Number_of v = (case v of None \<Rightarrow> NaN | Some x \<Rightarrow> x)"

text \<open>The constant \<^verbatim>\<open>created\<close> of the callback.\<close>

definition created_of :: "(string \<Rightarrow> Date) \<Rightarrow> int \<Rightarrow> nat \<Rightarrow> RawTask \<Rightarrow> Date" where
  "created_of parse now idx t =
     (case r_createdAt t of
        None \<Rightarrow> TimeClip (now - (int idx + 1) * 24 * 3600 * 1000)
      | Some c \<Rightarrow>
          if truthy c then parse c
          else TimeClip (now - (int idx + 1) * 24 * 3600 * 1000))"

text \<open>The constant \<^verbatim>\<open>completed\<close> of the callback.\<close>

definition completed_of :: "Date \<Rightarrow> RawTask \<Rightarrow> js_error + string option" where
  "completed_of created t =
     (if truthy_opt (r_completedAt t) then Inr (r_completedAt t)
      else if r_status t = Done then
        (case toISOString (case created of None \<Rightarrow> None
                            | Some c \<Rightarrow> TimeClip (c + 24 * 3600 * 1000)) of
           Inl e \<Rightarrow> Inl e
         | Inr s \<Rightarrow> Inr (Some s))
      else Inr None)"

definition normalize_one ::
  "(string \<Rightarrow> Date) \<Rightarrow> int \<Rightarrow> (nat \<Rightarrow> string) \<Rightarrow> RawTask \<Rightarrow> nat \<Rightarrow> js_error + Task" where
  "normalize_one parse now genId t idx =
     (let created = created_of parse now idx t in
      case completed_of created t of
        Inl e \<Rightarrow> Inl e
      | Inr completed \<Rightarrow>
          (case toISOString created of
             Inl e \<Rightarrow> Inl e
           | Inr createdISO \<Rightarrow>
               Inr \<lparr>task_id = (case r_id t of Some i \<Rightarrow> i | None \<Rightarrow> genId idx),
                    title = (case r_title t of Some x \<Rightarrow> x | None \<Rightarrow> []),
                    revenue = (if isFinite (Number_of (r_revenue t)) then Number_of (r_revenue t)
                               else Fin 0),
                    timeTaken = (if isFinite (Number_of (r_timeTaken t))
                                    \<and> js_gt (Number_of (r_timeTaken t)) (Fin 0)
                                 then Number_of (r_timeTaken t) else Fin 1),
                    priority = r_priority t, status = r_status t, task_notes = r_notes t,
                    createdAt = createdISO, completedAt = completed\<rparr>))"

text \<open>\<^verbatim>\<open>input.map((t, idx) => ...)\<close>, from the index \<open>idx\<close> on; the first throw ends it.\<close>

fun map_from :: "(RawTask \<Rightarrow> nat \<Rightarrow> js_error + Task) \<Rightarrow> nat \<Rightarrow> RawTask list \<Rightarrow> js_error + Task list" where
  "map_from f idx [] = Inr []"
| "map_from f idx (t # ts) =
     (case f t idx of
        Inl e \<Rightarrow> Inl e
      | Inr x \<Rightarrow> (case map_from f (Suc idx) ts of Inl e \<Rightarrow> Inl e | Inr xs \<Rightarrow> Inr (x # xs)))"

definition normalizeTasks ::
  "(string \<Rightarrow> Date) \<Rightarrow> int \<Rightarrow> (nat \<Rightarrow> string) \<Rightarrow> RawTask list \<Rightarrow> js_error + Task list" where
  "normalizeTasks parse now genId input = map_from (normalize_one parse now genId) 0 input"

text \<open>
  The records on which the callback does not throw: the date \<^verbatim>\<open>created\<close> is valid, and
  so is the date a day later where \<^verbatim>\<open>completedAt\<close> is made from it.
\<close>

definition normalizes :: "(string \<Rightarrow> Date) \<Rightarrow> int \<Rightarrow> nat \<Rightarrow> RawTask \<Rightarrow> bool" where
  "normalizes parse now idx t =
     (case created_of parse now idx t of
        None \<Rightarrow> False
      | Some c \<Rightarrow>
          truthy_opt (r_completedAt t) \<or> r_status t \<noteq> Done
          \<or> TimeClip (c + 24 * 3600 * 1000) \<noteq> None)"

section \<open>Example inputs and the notions of the properties\<close>

definition bare :: RawTask where
  "bare = \<lparr>r_id = None, r_title = None, r_revenue = None, r_timeTaken = None,
     r_priority = Low, r_status = Todo, r_notes = None, r_createdAt = None,
     r_completedAt = None\<rparr>"

text \<open>A record that has nothing but a \<^verbatim>\<open>createdAt\<close>.\<close>

definition dated :: "string \<Rightarrow> RawTask" where
  "dated c = bare\<lparr>r_createdAt := Some c\<rparr>"

definition done_task :: "string \<Rightarrow> Priority \<Rightarrow> string \<Rightarrow> string \<Rightarrow> Task" where
  "done_task i p created completed = \<lparr>task_id = i, title = i, revenue = Fin 100,
     timeTaken = Fin 5, priority = p, status = Done, task_notes = None,
     createdAt = created, completedAt = Some completed\<rparr>"

text \<open>
  Following the spec's words: the lower median of an ascending array, the lower of its
  two middle elements when the length is even.
\<close>

definition lower_median :: "jsnum list \<Rightarrow> jsnum" where
  "lower_median arr = arr ! ((length arr - 1) div 2)"

text \<open>
  The days of the tasks of one priority that have a \<^verbatim>\<open>completedAt\<close>, in the order of
  the collection: the bucket of that priority.
\<close>

definition days_of :: "(string \<Rightarrow> Date) \<Rightarrow> rounding \<Rightarrow> Task \<Rightarrow> jsnum option" where
  "days_of parse rnd t =
     (case completedAt t of
        None \<Rightarrow> None
      | Some c \<Rightarrow> if truthy c then Some (daysBetween parse rnd (createdAt t) c) else None)"

definition bucket :: "(string \<Rightarrow> Date) \<Rightarrow> rounding \<Rightarrow> Priority \<Rightarrow> Task list \<Rightarrow> jsnum list" where
  "bucket parse rnd k ts =
     List.map_filter (days_of parse rnd) (filter (\<lambda>t. priority t = k) ts)"

definition two_done :: "Task list" where
  "two_done =
     [done_task ''a'' High ''2024-01-01T00:00:00.000Z'' ''2024-01-02T00:00:00.000Z'',
      done_task ''b'' High ''2024-01-01T00:00:00.000Z'' ''2024-01-03T00:00:00.000Z'']"

section \<open>Properties\<close>

subsection \<open>Return on investment\<close>

lemma two_decimals: "\<bar>of_int \<lfloor>x * 100 + 1 / 2\<rfloor> / 100 - x\<bar> \<le> 1 / (200 :: rat)"
proof -
  define n :: rat where "n = of_int \<lfloor>x * 100 + 1 / 2\<rfloor>"
  have lo: "n \<le> x * 100 + 1 / 2"
    unfolding n_def by (rule of_int_floor_le)
  have hi: "x * 100 + 1 / 2 < n + 1"
    unfolding n_def by linarith
  have "n / 100 - x \<le> 1 / 200" "- (1 / 200) \<le> n / 100 - x"
    using lo hi by simp_all
  then have "\<bar>n / 100 - x\<bar> \<le> 1 / 200"
    by linarith
  then show ?thesis
    by (simp add: n_def)
qed

text \<open>
  C6 (as amended). For all numbers \<open>r\<close> and \<open>t\<close>, \<open>computeROI r t\<close> is null exactly when
  \<open>t \<le> 0\<close>, or one of \<open>r\<close>, \<open>t\<close> and \<open>r / t\<close> is not finite. Otherwise, when the product
  of the quotient and 100 does not overflow, it is the integer nearest to that product,
  the upper one of two that are as near, divided by 100; where the runtime computes the
  quotient and the product exactly, this is \<open>r / t\<close> rounded to two decimal places, at
  most 0.005 away from \<open>r / t\<close>.
\<close>

theorem computeROI_null_or_rounded:
  "(computeROI rnd r t = None) =
     (js_le t (Fin 0) \<or> \<not> isFinite r \<or> \<not> isFinite t \<or> \<not> isFinite (js_div rnd r t))
   \<and> (\<forall>a b q p. r = Fin a \<and> t = Fin b \<and> 0 < b \<and> rnd (a / b) = Some q \<and> rnd (q * 100) = Some p
        \<longrightarrow> computeROI rnd r t = Some (js_round rnd (of_int \<lfloor>p + 1 / 2\<rfloor> / 100)))
   \<and> (\<forall>a b. r = Fin a \<and> t = Fin b \<and> 0 < b \<and> rnd (a / b) = Some (a / b)
          \<and> rnd (a / b * 100) = Some (a / b * 100)
        \<longrightarrow> computeROI rnd r t = Some (js_round rnd (of_int \<lfloor>a / b * 100 + 1 / 2\<rfloor> / 100))
            \<and> \<bar>of_int \<lfloor>a / b * 100 + 1 / 2\<rfloor> / 100 - a / b\<bar> \<le> 1 / 200)"
proof (intro conjI allI impI)
  show "(computeROI rnd r t = None) =
     (js_le t (Fin 0) \<or> \<not> isFinite r \<or> \<not> isFinite t \<or> \<not> isFinite (js_div rnd r t))"
    by (auto simp: computeROI_def Let_def)
next
  fix a b q p
  assume "r = Fin a \<and> t = Fin b \<and> 0 < b \<and> rnd (a / b) = Some q \<and> rnd (q * 100) = Some p"
  then show "computeROI rnd r t = Some (js_round rnd (of_int \<lfloor>p + 1 / 2\<rfloor> / 100))"
    by (simp add: computeROI_def js_round_def)
next
  fix a b
  assume h: "r = Fin a \<and> t = Fin b \<and> 0 < b \<and> rnd (a / b) = Some (a / b)
          \<and> rnd (a / b * 100) = Some (a / b * 100)"
  then show "computeROI rnd r t = Some (js_round rnd (of_int \<lfloor>a / b * 100 + 1 / 2\<rfloor> / 100))"
    by (simp add: computeROI_def js_round_def)
  show "\<bar>of_int \<lfloor>a / b * 100 + 1 / 2\<rfloor> / 100 - a / b\<bar> \<le> 1 / 200"
    by (rule two_decimals)
qed

theorem computeROI_null_or_rounded_witness:
  "computeROI exact (Fin 1) (Fin 8) = Some (Fin (13 / 100))
   \<and> computeROI exact (Fin (- 1)) (Fin 8) = Some (Fin (- 12 / 100))
   \<and> \<bar>(13 / 100 :: rat) - 1 / 8\<bar> \<le> 1 / 200
   \<and> computeROI exact (Fin 10) (Fin 0) = None
   \<and> computeROI exact (Fin 10) NaN = None
   \<and> computeROI exact PosInf (Fin 2) = None"
proof -
  have f: "\<lfloor>(1 / 8 * 100 + 1 / 2 :: rat)\<rfloor> = 13" "\<lfloor>(- 1 / 8 * 100 + 1 / 2 :: rat)\<rfloor> = - 12"
    by (simp_all add: floor_unique)
  have nulls: "computeROI exact (Fin 10) (Fin 0) = None \<and> computeROI exact (Fin 10) NaN = None
      \<and> computeROI exact PosInf (Fin 2) = None"
    by (simp add: computeROI_def)
  from computeROI_null_or_rounded [of exact "Fin 1" "Fin 8"]
    computeROI_null_or_rounded [of exact "Fin (- 1)" "Fin 8"] f nulls
  show ?thesis
    by (simp add: exact_def js_round_def)
qed

text \<open>
  C6 as stated fails where the product overflows: for \<open>r = 2 ^ 1020\<close> and \<open>t = 1\<close> all
  of \<open>r\<close>, \<open>t\<close> and \<open>r / t\<close> are finite and \<open>t\<close> is positive, and the result is
  \<^verbatim>\<open>Infinity\<close>, which is not \<open>r / t\<close> rounded to two decimal places.
\<close>

theorem computeROI_null_or_rounded_counterexample:
  "isFinite (Fin (2 ^ 1020)) \<and> isFinite (Fin 1) \<and> \<not> js_le (Fin 1) (Fin 0)
   \<and> js_div overflowing (Fin (2 ^ 1020)) (Fin 1) = Fin (2 ^ 1020)
   \<and> computeROI overflowing (Fin (2 ^ 1020)) (Fin 1) = Some PosInf"
  by (simp add: computeROI_def overflowing_def js_round_def)

subsection \<open>The task store\<close>

lemma find_as_filter:
  "find P xs = (case filter P xs of [] \<Rightarrow> None | x # _ \<Rightarrow> Some x)"
  by (induction xs) auto

lemma update_merge_other: "task_id t \<noteq> ident \<Longrightarrow> update_merge now ident patch t = t"
  by (simp add: update_merge_def)

lemma update_clamp_id: "task_id (update_clamp ident patch t) = task_id t"
  by (simp add: update_clamp_def)

lemma update_clamp_createdAt: "createdAt (update_clamp ident patch t) = createdAt t"
  by (simp add: update_clamp_def)

lemma update_merge_id:
  "task_id (update_merge now ident patch t) =
     (if task_id t = ident then (case p_id patch of Some v \<Rightarrow> v | None \<Rightarrow> task_id t)
      else task_id t)"
  by (simp add: update_merge_def merge_patch_def Let_def)

lemma update_merge_createdAt:
  "createdAt (update_merge now ident patch t) =
     (if task_id t = ident then (case p_createdAt patch of Some v \<Rightarrow> v | None \<Rightarrow> createdAt t)
      else createdAt t)"
  by (simp add: update_merge_def merge_patch_def Let_def)

lemma update_merge_timeTaken:
  "timeTaken (update_merge now ident patch t) =
     (if task_id t = ident then (case p_timeTaken patch of Some v \<Rightarrow> v | None \<Rightarrow> timeTaken t)
      else timeTaken t)"
  by (simp add: update_merge_def merge_patch_def Let_def)

lemma tasks_updateTask:
  "tasks (updateTask now ident patch s) =
     map (\<lambda>t. update_clamp ident patch (update_merge now ident patch t)) (tasks s)"
  by (simp add: updateTask_def Let_def comp_def)

text \<open>
  C3 (as amended). Deleting an identifier that no task carries leaves the collection as
  it is and sets \<open>lastDeleted\<close> to null: \<^verbatim>\<open>setLastDeleted(target)\<close> runs with the null
  target, so a record staged by an earlier deletion is dropped.
\<close>

theorem deleteTask_absent:
  "ident \<notin> task_id ` set (tasks s) \<Longrightarrow>
     deleteTask ident s = \<lparr>tasks = tasks s, lastDeleted = None\<rparr>"
proof -
  assume absent: "ident \<notin> task_id ` set (tasks s)"
  then have all: "\<forall>t \<in> set (tasks s). task_id t \<noteq> ident"
    by auto
  then have keep: "filter (\<lambda>t. task_id t \<noteq> ident) (tasks s) = tasks s"
    by (simp add: filter_id_conv)
  from all have "filter (\<lambda>t. task_id t = ident) (tasks s) = []"
    by (simp add: filter_empty_conv)
  then have "find (\<lambda>t. task_id t = ident) (tasks s) = None"
    by (simp add: find_as_filter)
  with keep show ?thesis
    by (simp add: deleteTask_def)
qed

theorem deleteTask_absent_witness:
  "''zzz'' \<notin> task_id ` set [sample ''a'' ''A'']
   \<and> deleteTask ''zzz'' \<lparr>tasks = [sample ''a'' ''A''], lastDeleted = Some (sample ''b'' ''B'')\<rparr>
       = \<lparr>tasks = [sample ''a'' ''A''], lastDeleted = None\<rparr>"
proof -
  have h: "''zzz'' \<notin> task_id ` set (tasks \<lparr>tasks = [sample ''a'' ''A''], lastDeleted = Some (sample ''b'' ''B'')\<rparr>)"
    by (simp add: sample_def)
  from deleteTask_absent [OF h] h show ?thesis
    by simp
qed

text \<open>
  C3 as stated fails: with a record staged in \<open>lastDeleted\<close>, deleting an absent
  identifier clears the buffer.
\<close>

theorem deleteTask_absent_counterexample:
  "filter (\<lambda>t. task_id t = ''zzz'') [sample ''a'' ''A''] = []
   \<and> lastDeleted \<lparr>tasks = [sample ''a'' ''A''], lastDeleted = Some (sample ''b'' ''B'')\<rparr>
       = Some (sample ''b'' ''B'')
   \<and> lastDeleted (deleteTask ''zzz''
        \<lparr>tasks = [sample ''a'' ''A''], lastDeleted = Some (sample ''b'' ''B'')\<rparr>) = None"
  by (simp add: deleteTask_def sample_def)

text \<open>
  C5 (as amended). \<open>updateTask\<close> keeps the length of the collection, changes no task
  whose identifier differs from the one given, leaves every \<open>id\<close> unchanged when the
  patch has no \<open>id\<close> key and every \<open>createdAt\<close> unchanged when the patch has no
  \<open>createdAt\<close> key.
\<close>

theorem updateTask_frame:
  "length (tasks (updateTask now ident patch s)) = length (tasks s)
   \<and> (p_id patch = None \<longrightarrow>
        map task_id (tasks (updateTask now ident patch s)) = map task_id (tasks s))
   \<and> (p_createdAt patch = None \<longrightarrow>
        map createdAt (tasks (updateTask now ident patch s)) = map createdAt (tasks s))
   \<and> (\<forall>i < length (tasks s).
        task_id (tasks s ! i) \<noteq> ident \<longrightarrow>
           tasks (updateTask now ident patch s) ! i = tasks s ! i)"
proof (intro conjI impI allI)
  show "length (tasks (updateTask now ident patch s)) = length (tasks s)"
    by (simp add: tasks_updateTask)
next
  assume "p_id patch = None"
  then show "map task_id (tasks (updateTask now ident patch s)) = map task_id (tasks s)"
    by (simp add: tasks_updateTask update_clamp_id update_merge_id comp_def)
next
  assume "p_createdAt patch = None"
  then show "map createdAt (tasks (updateTask now ident patch s)) = map createdAt (tasks s)"
    by (simp add: tasks_updateTask update_clamp_createdAt update_merge_createdAt comp_def)
next
  fix i assume "i < length (tasks s)" "task_id (tasks s ! i) \<noteq> ident"
  then show "tasks (updateTask now ident patch s) ! i = tasks s ! i"
    by (simp add: tasks_updateTask update_merge_other update_clamp_def)
qed

theorem updateTask_frame_witness:
  "p_id (no_patch\<lparr>p_title := Some ''T''\<rparr>) = None
   \<and> p_createdAt (no_patch\<lparr>p_title := Some ''T''\<rparr>) = None
   \<and> map task_id (tasks (updateTask ''2024-02-02T00:00:00.000Z'' ''a''
         (no_patch\<lparr>p_title := Some ''T''\<rparr>)
         \<lparr>tasks = [sample ''a'' ''A'', sample ''b'' ''B''], lastDeleted = None\<rparr>)) = [''a'', ''b'']
   \<and> map title (tasks (updateTask ''2024-02-02T00:00:00.000Z'' ''a''
         (no_patch\<lparr>p_title := Some ''T''\<rparr>)
         \<lparr>tasks = [sample ''a'' ''A'', sample ''b'' ''B''], lastDeleted = None\<rparr>)) = [''T'', ''B'']
   \<and> map createdAt (tasks (updateTask ''2024-02-02T00:00:00.000Z'' ''a''
         (no_patch\<lparr>p_title := Some ''T''\<rparr>)
         \<lparr>tasks = [sample ''a'' ''A'', sample ''b'' ''B''], lastDeleted = None\<rparr>))
       = [''2024-01-01T00:00:00.000Z'', ''2024-01-01T00:00:00.000Z'']"
proof -
  have h: "p_id (no_patch\<lparr>p_title := Some ''T''\<rparr>) = None
           \<and> p_createdAt (no_patch\<lparr>p_title := Some ''T''\<rparr>) = None"
    by (simp add: no_patch_def)
  have ttl: "map title (tasks (updateTask ''2024-02-02T00:00:00.000Z'' ''a''
         (no_patch\<lparr>p_title := Some ''T''\<rparr>)
         \<lparr>tasks = [sample ''a'' ''A'', sample ''b'' ''B''], lastDeleted = None\<rparr>)) = [''T'', ''B'']"
    by (simp add: updateTask_def update_merge_def update_clamp_def merge_patch_def
        no_patch_def sample_def truthy_opt_def)
  from updateTask_frame [of "''2024-02-02T00:00:00.000Z''" "''a''"
      "no_patch\<lparr>p_title := Some ''T''\<rparr>"
      "\<lparr>tasks = [sample ''a'' ''A'', sample ''b'' ''B''], lastDeleted = None\<rparr>"] h ttl
  show ?thesis
    by (simp add: sample_def)
qed

text \<open>
  C5 as stated fails: a patch with the keys \<open>id\<close> and \<open>createdAt\<close> replaces both fields.
\<close>

theorem updateTask_frame_counterexample:
  "map task_id (tasks \<lparr>tasks = [sample ''a'' ''A''], lastDeleted = None\<rparr>) = [''a'']
   \<and> map createdAt (tasks \<lparr>tasks = [sample ''a'' ''A''], lastDeleted = None\<rparr>)
       = [''2024-01-01T00:00:00.000Z'']
   \<and> map task_id (tasks (updateTask ''2024-02-02T00:00:00.000Z'' ''a''
         (no_patch\<lparr>p_id := Some ''b'', p_createdAt := Some ''1999-12-31T00:00:00.000Z''\<rparr>)
         \<lparr>tasks = [sample ''a'' ''A''], lastDeleted = None\<rparr>)) = [''b'']
   \<and> map createdAt (tasks (updateTask ''2024-02-02T00:00:00.000Z'' ''a''
         (no_patch\<lparr>p_id := Some ''b'', p_createdAt := Some ''1999-12-31T00:00:00.000Z''\<rparr>)
         \<lparr>tasks = [sample ''a'' ''A''], lastDeleted = None\<rparr>))
       = [''1999-12-31T00:00:00.000Z'']"
  by (simp add: updateTask_def update_merge_def update_clamp_def merge_patch_def
      no_patch_def sample_def truthy_opt_def)

text \<open>
  C8 (as amended). When \<open>A\<close> is the one task of the collection with its identifier,
  deleting it stages \<open>A\<close> in \<open>lastDeleted\<close> and removes it; undoing appends \<open>A\<close> at the
  end, empties \<open>lastDeleted\<close> and restores the contents of the collection as a multiset.
\<close>

theorem delete_then_undo:
  assumes only: "filter (\<lambda>t. task_id t = task_id A) (tasks s) = [A]"
  shows "lastDeleted (deleteTask (task_id A) s) = Some A
   \<and> A \<notin> set (tasks (deleteTask (task_id A) s))
   \<and> tasks (undoDelete (deleteTask (task_id A) s)) = tasks (deleteTask (task_id A) s) @ [A]
   \<and> lastDeleted (undoDelete (deleteTask (task_id A) s)) = None
   \<and> mset (tasks (undoDelete (deleteTask (task_id A) s))) = mset (tasks s)"
proof -
  let ?P = "\<lambda>t. task_id t = task_id A"
  from only have found: "find ?P (tasks s) = Some A"
    by (simp add: find_as_filter)
  have rest: "tasks (deleteTask (task_id A) s) = filter (\<lambda>t. \<not> ?P t) (tasks s)"
    by (simp add: deleteTask_def)
  have ld: "lastDeleted (deleteTask (task_id A) s) = Some A"
    using found by (simp add: deleteTask_def)
  have gone: "A \<notin> set (tasks (deleteTask (task_id A) s))"
    by (simp add: rest)
  have undo: "undoDelete (deleteTask (task_id A) s)
      = \<lparr>tasks = tasks (deleteTask (task_id A) s) @ [A], lastDeleted = None\<rparr>"
    using ld by (simp add: undoDelete_def)
  have "mset (filter (\<lambda>t. \<not> ?P t) (tasks s)) + mset (filter ?P (tasks s)) = mset (tasks s)"
    by (induction "tasks s") auto
  with only have "mset (filter (\<lambda>t. \<not> ?P t) (tasks s) @ [A]) = mset (tasks s)"
    by simp
  with ld gone undo rest show ?thesis
    by simp
qed

theorem delete_then_undo_witness:
  "filter (\<lambda>t. task_id t = task_id (sample ''a'' ''A'')) [sample ''a'' ''A'', sample ''b'' ''B'']
     = [sample ''a'' ''A'']
   \<and> deleteTask ''a'' \<lparr>tasks = [sample ''a'' ''A'', sample ''b'' ''B''], lastDeleted = None\<rparr>
       = \<lparr>tasks = [sample ''b'' ''B''], lastDeleted = Some (sample ''a'' ''A'')\<rparr>
   \<and> undoDelete (deleteTask ''a''
         \<lparr>tasks = [sample ''a'' ''A'', sample ''b'' ''B''], lastDeleted = None\<rparr>)
       = \<lparr>tasks = [sample ''b'' ''B'', sample ''a'' ''A''], lastDeleted = None\<rparr>
   \<and> mset (tasks (undoDelete (deleteTask (task_id (sample ''a'' ''A''))
         \<lparr>tasks = [sample ''a'' ''A'', sample ''b'' ''B''], lastDeleted = None\<rparr>)))
       = mset [sample ''a'' ''A'', sample ''b'' ''B'']"
proof -
  have h: "filter (\<lambda>t. task_id t = task_id (sample ''a'' ''A''))
      (tasks \<lparr>tasks = [sample ''a'' ''A'', sample ''b'' ''B''], lastDeleted = None\<rparr>)
     = [sample ''a'' ''A'']"
    by (simp add: sample_def)
  have run: "deleteTask ''a'' \<lparr>tasks = [sample ''a'' ''A'', sample ''b'' ''B''], lastDeleted = None\<rparr>
       = \<lparr>tasks = [sample ''b'' ''B''], lastDeleted = Some (sample ''a'' ''A'')\<rparr>"
    by (simp add: deleteTask_def sample_def)
  have redo: "undoDelete \<lparr>tasks = [sample ''b'' ''B''], lastDeleted = Some (sample ''a'' ''A'')\<rparr>
       = \<lparr>tasks = [sample ''b'' ''B'', sample ''a'' ''A''], lastDeleted = None\<rparr>"
    by (simp add: undoDelete_def)
  have tid: "task_id (sample ''a'' ''A'') = ''a''"
    by (simp add: sample_def)
  from delete_then_undo [OF h] h run redo show ?thesis
    by (simp add: tid)
qed

text \<open>
  C8 as stated fails on the store \<open>twins\<close>, where two tasks share an identifier
  (\<open>addTask\<close> takes the caller's \<open>id\<close> unchecked): the deletion removes both and the undo
  restores the first only.
\<close>

theorem delete_then_undo_counterexample:
  "map task_id (tasks twins) = [''n'', ''n'']
   \<and> map timeTaken (tasks twins) = [Fin 5, Fin 7]
   \<and> lastDeleted (deleteTask (task_id (tasks twins ! 0)) twins) = Some (tasks twins ! 0)
   \<and> tasks (deleteTask (task_id (tasks twins ! 0)) twins) = []
   \<and> tasks (undoDelete (deleteTask (task_id (tasks twins ! 0)) twins)) = [tasks twins ! 0]
   \<and> mset (tasks (undoDelete (deleteTask (task_id (tasks twins ! 0)) twins)))
       \<noteq> mset (tasks twins)"
  by (simp add: twins_def run_ops_def addTask_def deleteTask_def undoDelete_def sample_new_def)

lemma tasks_addTask:
  "tasks (addTask now uuid task s) = tasks s @
     [\<lparr>task_id = (case n_id task of Some i \<Rightarrow> i | None \<Rightarrow> uuid), title = n_title task,
       revenue = n_revenue task,
       timeTaken = (if js_le (n_timeTaken task) (Fin 0) then Fin 1 else n_timeTaken task),
       priority = n_priority task, status = n_status task, task_notes = n_notes task,
       createdAt = now,
       completedAt = (if n_status task = Done then Some now else None)\<rparr>]"
  by (simp add: addTask_def Let_def)

lemma js_gt_if_not_le: "v \<noteq> NaN \<Longrightarrow> \<not> js_le v (Fin 0) \<Longrightarrow> js_gt v (Fin 0)"
  by (cases v) auto

lemma addTask_keeps_positive:
  assumes "\<forall>t \<in> set (tasks s). js_gt (timeTaken t) (Fin 0)" and "n_timeTaken task \<noteq> NaN"
  shows "\<forall>t \<in> set (tasks (addTask now uuid task s)). js_gt (timeTaken t) (Fin 0)"
  using assms by (auto simp: tasks_addTask js_gt_if_not_le)

lemma updateTask_keeps_positive:
  assumes inv: "\<forall>t \<in> set (tasks s). js_gt (timeTaken t) (Fin 0)"
    and same: "p_id patch = None \<or> p_id patch = Some ident"
    and num: "p_timeTaken patch \<noteq> Some NaN"
  shows "\<forall>t \<in> set (tasks (updateTask now ident patch s)). js_gt (timeTaken t) (Fin 0)"
proof -
  have one: "js_gt (timeTaken (update_clamp ident patch (update_merge now ident patch t))) (Fin 0)"
    if pos: "js_gt (timeTaken t) (Fin 0)" for t
  proof (cases "task_id t = ident")
    case False
    with pos show ?thesis
      by (simp add: update_merge_other update_clamp_def)
  next
    case True
    let ?m = "update_merge now ident patch t"
    from True same have mid: "task_id ?m = ident"
      by (auto simp: update_merge_id)
    have mtt: "timeTaken ?m = (case p_timeTaken patch of Some v \<Rightarrow> v | None \<Rightarrow> timeTaken t)"
      using True by (simp add: update_merge_timeTaken)
    show ?thesis
    proof (cases "p_timeTaken patch")
      case None
      with mtt pos mid show ?thesis
        by (cases "timeTaken t") (auto simp: update_clamp_def)
    next
      case (Some v)
      with num have "v \<noteq> NaN" by simp
      with Some mtt mid show ?thesis
        by (auto simp: update_clamp_def js_gt_if_not_le)
    qed
  qed
  with inv show ?thesis
    by (auto simp: tasks_updateTask)
qed

lemma run_ops_keeps_positive:
  assumes "list_all clampable ops"
    and "\<forall>t \<in> set (tasks s). js_gt (timeTaken t) (Fin 0)"
  shows "\<forall>t \<in> set (tasks (run_ops s ops)). js_gt (timeTaken t) (Fin 0)"
  using assms unfolding run_ops_def
proof (induction ops arbitrary: s)
  case Nil
  then show ?case by simp
next
  case (Cons x ops)
  have "\<forall>t \<in> set (tasks (apply_op s x)). js_gt (timeTaken t) (Fin 0)"
  proof (cases x)
    case (Add now uuid task)
    with Cons.prems show ?thesis
      using addTask_keeps_positive [of s task now uuid] by simp
  next
    case (Update now ident patch)
    with Cons.prems show ?thesis
      using updateTask_keeps_positive [of s patch ident now] by simp
  qed
  with Cons.IH [of "apply_op s x"] Cons.prems(1) show ?case
    by simp
qed

text \<open>
  C10. In \<open>addTask\<close> the stored \<open>timeTaken\<close> is 1 when the supplied value satisfies
  \<open>\<le> 0\<close> and the supplied value otherwise; in \<open>updateTask\<close> the stored value of a matched
  task differs from the merged value only if that value satisfies \<open>\<le> 0\<close>, and is then 1.
  NaN does not satisfy the comparison and is stored as it is by both.
\<close>

theorem clamp_only_when_nonpositive:
  "timeTaken (last (tasks (addTask now uuid task s)))
     = (if js_le (n_timeTaken task) (Fin 0) then Fin 1 else n_timeTaken task)
   \<and> (n_timeTaken task = NaN \<longrightarrow> timeTaken (last (tasks (addTask now uuid task s))) = NaN)
   \<and> (\<forall>i < length (tasks s). task_id (tasks s ! i) = ident \<longrightarrow>
        (let v = (case p_timeTaken patch of Some x \<Rightarrow> x | None \<Rightarrow> timeTaken (tasks s ! i));
             stored = timeTaken (tasks (updateTask now ident patch s) ! i)
         in (stored \<noteq> v \<longrightarrow> js_le v (Fin 0) \<and> stored = Fin 1)
            \<and> (v = NaN \<longrightarrow> stored = NaN)))"
proof (intro conjI allI impI)
  show "timeTaken (last (tasks (addTask now uuid task s)))
     = (if js_le (n_timeTaken task) (Fin 0) then Fin 1 else n_timeTaken task)"
    by (simp add: tasks_addTask)
next
  assume "n_timeTaken task = NaN"
  then show "timeTaken (last (tasks (addTask now uuid task s))) = NaN"
    by (simp add: tasks_addTask)
next
  fix i assume i: "i < length (tasks s)" and hit: "task_id (tasks s ! i) = ident"
  let ?t = "tasks s ! i"
  let ?v = "case p_timeTaken patch of Some x \<Rightarrow> x | None \<Rightarrow> timeTaken ?t"
  let ?m = "update_merge now ident patch ?t"
  have mtt: "timeTaken ?m = ?v"
    using hit by (simp add: update_merge_timeTaken)
  have res: "tasks (updateTask now ident patch s) ! i = update_clamp ident patch ?m"
    using i by (simp add: tasks_updateTask)
  have eq: "(case p_timeTaken patch of Some x \<Rightarrow> x | None \<Rightarrow> timeTaken ?m) = ?v"
    using mtt by (cases "p_timeTaken patch") auto
  have stored: "timeTaken (update_clamp ident patch ?m)
      = (if task_id ?m = ident \<and> js_le ?v (Fin 0) then Fin 1 else ?v)"
    using mtt eq by (simp add: update_clamp_def)
  show "let v = ?v; stored = timeTaken (tasks (updateTask now ident patch s) ! i)
        in (stored \<noteq> v \<longrightarrow> js_le v (Fin 0) \<and> stored = Fin 1) \<and> (v = NaN \<longrightarrow> stored = NaN)"
    unfolding Let_def res stored by auto
qed

theorem clamp_only_when_nonpositive_witness:
  "timeTaken (last (tasks (addTask ''2024-02-02T00:00:00.000Z'' ''u'' (sample_new NaN)
       \<lparr>tasks = [sample ''a'' ''A''], lastDeleted = None\<rparr>))) = NaN
   \<and> timeTaken (last (tasks (addTask ''2024-02-02T00:00:00.000Z'' ''u'' (sample_new (Fin 0))
       \<lparr>tasks = [sample ''a'' ''A''], lastDeleted = None\<rparr>))) = Fin 1
   \<and> timeTaken (tasks (updateTask ''2024-02-02T00:00:00.000Z'' ''a''
       (no_patch\<lparr>p_timeTaken := Some NaN\<rparr>)
       \<lparr>tasks = [sample ''a'' ''A''], lastDeleted = None\<rparr>) ! 0) = NaN
   \<and> timeTaken (tasks (updateTask ''2024-02-02T00:00:00.000Z'' ''a''
       (no_patch\<lparr>p_timeTaken := Some (Fin (- 3))\<rparr>)
       \<lparr>tasks = [sample ''a'' ''A''], lastDeleted = None\<rparr>) ! 0) = Fin 1"
proof -
  have a: "n_timeTaken (sample_new NaN) = NaN"
    by (simp add: sample_new_def)
  have b: "timeTaken (last (tasks (addTask ''2024-02-02T00:00:00.000Z'' ''u'' (sample_new (Fin 0))
       \<lparr>tasks = [sample ''a'' ''A''], lastDeleted = None\<rparr>))) = Fin 1"
    by (simp add: addTask_def sample_new_def)
  have c: "timeTaken (tasks (updateTask ''2024-02-02T00:00:00.000Z'' ''a''
       (no_patch\<lparr>p_timeTaken := Some (Fin (- 3))\<rparr>)
       \<lparr>tasks = [sample ''a'' ''A''], lastDeleted = None\<rparr>) ! 0) = Fin 1"
    by (simp add: updateTask_def update_merge_def update_clamp_def merge_patch_def
        no_patch_def sample_def truthy_opt_def)
  have d: "task_id (sample ''a'' ''A'') = ''a''"
    by (simp add: sample_def)
  from clamp_only_when_nonpositive [of "''2024-02-02T00:00:00.000Z''" "''u''" "sample_new NaN"
      "\<lparr>tasks = [sample ''a'' ''A''], lastDeleted = None\<rparr>" "''a''"
      "no_patch\<lparr>p_timeTaken := Some NaN\<rparr>"] a b c d
  show ?thesis
    by (simp add: Let_def)
qed

text \<open>
  C2 fails on the code, from the empty store. A patch that carries a new \<open>id\<close>
  together with \<open>timeTaken = 0\<close> is merged by the first \<^verbatim>\<open>map\<close>, and the second \<^verbatim>\<open>map\<close>, which looks for the old
  identifier, does not clamp it: 0 is stored. And \<open>addTask\<close> stores a NaN as it is,
  which is not greater than 0. On every sequence of calls without such inputs the
  invariant is kept (\<open>run_ops_keeps_positive\<close>).
\<close>

theorem timeTaken_not_kept_positive:
  "map timeTaken (tasks (run_ops \<lparr>tasks = [], lastDeleted = None\<rparr>
       [Add ''2024-02-02T00:00:00.000Z'' ''u'' (sample_new (Fin 5)),
        Update ''2024-02-03T00:00:00.000Z'' ''n''
          (no_patch\<lparr>p_id := Some ''b'', p_timeTaken := Some (Fin 0)\<rparr>)])) = [Fin 0]
   \<and> \<not> js_gt (Fin 0) (Fin 0)
   \<and> map timeTaken (tasks (run_ops \<lparr>tasks = [], lastDeleted = None\<rparr>
       [Add ''2024-02-02T00:00:00.000Z'' ''u'' (sample_new NaN)])) = [NaN]
   \<and> \<not> js_gt NaN (Fin 0)"
  by (simp add: run_ops_def updateTask_def update_merge_def update_clamp_def merge_patch_def
      addTask_def no_patch_def sample_new_def truthy_opt_def)

subsection \<open>Ranking\<close>

lemma mset_sort_insert: "mset (sort_insert cmp x ys) = add_mset x (mset ys)"
  by (induction ys) auto

lemma mset_Array_sort: "mset (Array_sort cmp xs) = mset xs"
  by (induction xs) (auto simp: mset_sort_insert)

lemma length_Array_sort: "length (Array_sort cmp xs) = length xs"
  using mset_Array_sort [of cmp xs] by (metis size_mset)

lemma set_Array_sort: "set (Array_sort cmp xs) = set xs"
  using mset_Array_sort [of cmp xs] by (metis set_mset_mset)

lemma set_sort_insert: "set (sort_insert cmp x ys) = insert x (set ys)"
  using mset_sort_insert [of cmp x ys] by (metis set_mset_mset set_mset_add_mset_insert)

lemma js_gt_zero_sign: "js_gt v (Fin 0) = (js_sign v = 1)"
  by (cases v) auto

lemma not_gt_sign: "(\<not> js_gt v (Fin 0)) = (js_sign v \<le> 0)"
  by (cases v) auto

lemma js_sign_of_int: "js_sign (Fin (of_int n)) = sgn n"
  by (simp add: sgn_if)

lemma js_sign_sub_flip: "js_sign (js_sub x y) = - js_sign (js_sub y x)"
  by (cases x; cases y) auto

lemma js_sign_sub_trans:
  "a \<noteq> NaN \<Longrightarrow> b \<noteq> NaN \<Longrightarrow> c \<noteq> NaN \<Longrightarrow>
   js_sign (js_sub a b) \<le> 0 \<Longrightarrow> js_sign (js_sub b c) \<le> 0 \<Longrightarrow> js_sign (js_sub a c) \<le> 0"
  by (cases a; cases b; cases c) (auto split: if_splits)

subsection \<open>Consistent comparators\<close>

lemma js_sign_cases: "js_sign v = - 1 \<or> js_sign v = 0 \<or> js_sign v = 1"
  by (cases v) auto

lemma consistentD:
  assumes c: "consistent cmp S" and m: "a \<in> S" "b \<in> S" "c \<in> S"
  shows "cmp a b \<noteq> NaN"
    and "js_sign (cmp a a) = 0"
    and "js_sign (cmp a b) = 0 \<Longrightarrow> js_sign (cmp b a) = 0"
    and "js_sign (cmp a b) = 0 \<Longrightarrow> js_sign (cmp b c) = 0 \<Longrightarrow> js_sign (cmp a c) = 0"
    and "js_sign (cmp a b) < 0 \<Longrightarrow> js_sign (cmp b c) < 0 \<Longrightarrow> js_sign (cmp a c) < 0"
    and "0 < js_sign (cmp a b) \<Longrightarrow> 0 < js_sign (cmp b c) \<Longrightarrow> 0 < js_sign (cmp a c)"
proof -
  note all = c [unfolded consistent_def, THEN bspec, OF m(1), THEN bspec, OF m(2),
      THEN bspec, OF m(3)]
  from all show "cmp a b \<noteq> NaN" by (elim conjE)
  from all show "js_sign (cmp a a) = 0" by (elim conjE)
  from all show "js_sign (cmp a b) = 0 \<Longrightarrow> js_sign (cmp b a) = 0"
    by (elim conjE) (erule (1) impE)
  from all show "js_sign (cmp a b) = 0 \<Longrightarrow> js_sign (cmp b c) = 0 \<Longrightarrow> js_sign (cmp a c) = 0"
    by (elim conjE) simp
  from all show "js_sign (cmp a b) < 0 \<Longrightarrow> js_sign (cmp b c) < 0 \<Longrightarrow> js_sign (cmp a c) < 0"
    by (elim conjE) simp
  from all show "0 < js_sign (cmp a b) \<Longrightarrow> 0 < js_sign (cmp b c) \<Longrightarrow> 0 < js_sign (cmp a c)"
    by (elim conjE) simp
qed

lemma consistent_not_NaN: "consistent cmp S \<Longrightarrow> a \<in> S \<Longrightarrow> b \<in> S \<Longrightarrow> cmp a b \<noteq> NaN"
  by (rule consistentD(1))

lemma consistent_flip:
  assumes c: "consistent cmp S" and a: "a \<in> S" and b: "b \<in> S"
  shows "js_sign (cmp a b) = - js_sign (cmp b a)"
proof -
  have refl: "js_sign (cmp a a) = 0"
    by (rule consistentD(2) [OF c a a a])
  have sym1: "js_sign (cmp a b) = 0 \<Longrightarrow> js_sign (cmp b a) = 0"
    by (rule consistentD(3) [OF c a b a])
  have sym2: "js_sign (cmp b a) = 0 \<Longrightarrow> js_sign (cmp a b) = 0"
    by (rule consistentD(3) [OF c b a a])
  have lt: "js_sign (cmp a b) < 0 \<Longrightarrow> js_sign (cmp b a) < 0 \<Longrightarrow> js_sign (cmp a a) < 0"
    by (rule consistentD(5) [OF c a b a])
  have gt: "0 < js_sign (cmp a b) \<Longrightarrow> 0 < js_sign (cmp b a) \<Longrightarrow> 0 < js_sign (cmp a a)"
    by (rule consistentD(6) [OF c a b a])
  from js_sign_cases [of "cmp a b"] js_sign_cases [of "cmp b a"] refl sym1 sym2 lt gt
  show ?thesis by auto
qed

lemma consistent_trans:
  assumes c: "consistent cmp S" and m: "a \<in> S" "b \<in> S" "c \<in> S"
    and ab: "js_sign (cmp a b) \<le> 0" and bc: "js_sign (cmp b c) \<le> 0"
  shows "js_sign (cmp a c) \<le> 0"
proof (rule ccontr)
  assume pos: "\<not> js_sign (cmp a c) \<le> 0"
  with consistent_flip [OF c m(1) m(3)] have ca: "js_sign (cmp c a) < 0" by simp
  show False
  proof (cases "js_sign (cmp a b) < 0")
    case True
    from consistentD(5) [OF c m(3) m(1) m(2) ca True] have "js_sign (cmp c b) < 0" .
    with consistent_flip [OF c m(2) m(3)] bc show False by simp
  next
    case False
    with ab have ab0: "js_sign (cmp a b) = 0" by simp
    show False
    proof (cases "js_sign (cmp b c) < 0")
      case True
      from consistentD(5) [OF c m(2) m(3) m(1) True ca] have "js_sign (cmp b a) < 0" .
      with consistent_flip [OF c m(1) m(2)] ab0 show False by simp
    next
      case False
      with bc have "js_sign (cmp b c) = 0" by simp
      from consistentD(4) [OF c m ab0 this] pos show False by simp
    qed
  qed
qed

text \<open>
  A comparator that never answers NaN, whose sign flips with its arguments and whose
  \<open>\<le>\<close> is transitive, is consistent.
\<close>

lemma consistentI:
  assumes nan: "\<And>a b. a \<in> S \<Longrightarrow> b \<in> S \<Longrightarrow> cmp a b \<noteq> NaN"
    and flip: "\<And>a b. a \<in> S \<Longrightarrow> b \<in> S \<Longrightarrow> js_sign (cmp a b) = - js_sign (cmp b a)"
    and le: "\<And>a b c. a \<in> S \<Longrightarrow> b \<in> S \<Longrightarrow> c \<in> S \<Longrightarrow>
           js_sign (cmp a b) \<le> 0 \<Longrightarrow> js_sign (cmp b c) \<le> 0 \<Longrightarrow> js_sign (cmp a c) \<le> 0"
  shows "consistent cmp S"
proof -
  have refl: "js_sign (cmp a a) = 0" if "a \<in> S" for a
    using flip [OF that that] by simp
  have symm: "js_sign (cmp b a) = 0" if "a \<in> S" "b \<in> S" "js_sign (cmp a b) = 0" for a b
    using flip [OF that(1,2)] that(3) by simp
  have eqt: "js_sign (cmp a c) = 0"
    if m: "a \<in> S" "b \<in> S" "c \<in> S" and e: "js_sign (cmp a b) = 0" "js_sign (cmp b c) = 0"
    for a b c
  proof -
    from le [OF m] e have "js_sign (cmp a c) \<le> 0" by simp
    moreover from le [OF m(3) m(2) m(1)] symm [OF m(1,2) e(1)] symm [OF m(2,3) e(2)]
    have "js_sign (cmp c a) \<le> 0" by simp
    ultimately show ?thesis using flip [OF m(1) m(3)] by simp
  qed
  have ltt: "js_sign (cmp a c) < 0"
    if m: "a \<in> S" "b \<in> S" "c \<in> S" and e: "js_sign (cmp a b) < 0" "js_sign (cmp b c) < 0"
    for a b c
  proof (rule ccontr)
    assume "\<not> js_sign (cmp a c) < 0"
    with flip [OF m(1) m(3)] have "js_sign (cmp c a) \<le> 0" by simp
    with le [OF m(2) m(3) m(1)] e have "js_sign (cmp b a) \<le> 0" by simp
    with flip [OF m(1) m(2)] e show False by simp
  qed
  have gtt: "0 < js_sign (cmp a c)"
    if m: "a \<in> S" "b \<in> S" "c \<in> S" and e: "0 < js_sign (cmp a b)" "0 < js_sign (cmp b c)"
    for a b c
  proof -
    from flip [OF m(1,2)] flip [OF m(2,3)] e
    have "js_sign (cmp c b) < 0" "js_sign (cmp b a) < 0" by simp_all
    from ltt [OF m(3) m(2) m(1) this] flip [OF m(1) m(3)] show ?thesis by simp
  qed
  show ?thesis
    unfolding consistent_def
  proof (intro ballI conjI impI)
    fix a b c assume m: "a \<in> S" "b \<in> S" "c \<in> S"
    show "cmp a b \<noteq> NaN"
      by (rule nan [OF m(1,2)])
    show "js_sign (cmp a a) = 0"
      by (rule refl [OF m(1)])
    show "js_sign (cmp b a) = 0" if "js_sign (cmp a b) = 0"
      by (rule symm [OF m(1,2) that])
    show "js_sign (cmp a c) = 0" if "js_sign (cmp a b) = 0 \<and> js_sign (cmp b c) = 0"
      using that eqt [OF m] by simp
    show "js_sign (cmp a c) < 0" if "js_sign (cmp a b) < 0 \<and> js_sign (cmp b c) < 0"
      using that ltt [OF m] by simp
    show "0 < js_sign (cmp a c)" if "0 < js_sign (cmp a b) \<and> 0 < js_sign (cmp b c)"
      using that gtt [OF m] by simp
  qed
qed

lemma consistent_refl: "consistent cmp S \<Longrightarrow> a \<in> S \<Longrightarrow> js_sign (cmp a a) = 0"
  using consistent_flip [of cmp S a a] by simp

lemma consistent_eq_trans:
  assumes c: "consistent cmp S" and m: "a \<in> S" "b \<in> S" "c \<in> S"
    and ab: "js_sign (cmp a b) = 0" and bc: "js_sign (cmp b c) = 0"
  shows "js_sign (cmp a c) = 0"
proof -
  from consistent_trans [OF c m] ab bc have le: "js_sign (cmp a c) \<le> 0" by simp
  from consistent_flip [OF c m(1,2)] ab have ba: "js_sign (cmp b a) = 0" by simp
  from consistent_flip [OF c m(2,3)] bc have cb: "js_sign (cmp c b) = 0" by simp
  from consistent_trans [OF c m(3) m(2) m(1)] cb ba have "js_sign (cmp c a) \<le> 0" by simp
  with consistent_flip [OF c m(1) m(3)] le show ?thesis by simp
qed

lemma consistent_strict_trans:
  assumes c: "consistent cmp S" and m: "a \<in> S" "b \<in> S" "c \<in> S"
    and ab: "js_sign (cmp a b) < 0" and bc: "js_sign (cmp b c) \<le> 0"
  shows "js_sign (cmp a c) < 0"
proof (rule ccontr)
  assume "\<not> js_sign (cmp a c) < 0"
  with consistent_flip [OF c m(1) m(3)] have ca: "js_sign (cmp c a) \<le> 0" by simp
  from consistent_trans [OF c m(2) m(3) m(1) bc ca] have "js_sign (cmp b a) \<le> 0" .
  with consistent_flip [OF c m(1,2)] ab show False by simp
qed

lemma consistent_strict_trans2:
  assumes c: "consistent cmp S" and m: "a \<in> S" "b \<in> S" "c \<in> S"
    and ab: "js_sign (cmp a b) \<le> 0" and bc: "js_sign (cmp b c) < 0"
  shows "js_sign (cmp a c) < 0"
proof (rule ccontr)
  assume "\<not> js_sign (cmp a c) < 0"
  with consistent_flip [OF c m(1) m(3)] have ca: "js_sign (cmp c a) \<le> 0" by simp
  from consistent_trans [OF c m(3) m(1) m(2) ca ab] have "js_sign (cmp c b) \<le> 0" .
  with consistent_flip [OF c m(2,3)] bc show False by simp
qed

lemma consistent_mono:
  assumes c: "consistent cmp S" and sub: "T \<subseteq> S"
  shows "consistent cmp T"
proof (rule consistentI)
  fix a b assume "a \<in> T" "b \<in> T"
  with sub have m: "a \<in> S" "b \<in> S" by auto
  show "cmp a b \<noteq> NaN"
    by (rule consistent_not_NaN [OF c m])
  show "js_sign (cmp a b) = - js_sign (cmp b a)"
    by (rule consistent_flip [OF c m])
next
  fix a b c assume "a \<in> T" "b \<in> T" "c \<in> T"
  with sub have m: "a \<in> S" "b \<in> S" "c \<in> S" by auto
  assume "js_sign (cmp a b) \<le> 0" "js_sign (cmp b c) \<le> 0"
  then show "js_sign (cmp a c) \<le> 0"
    by (rule consistent_trans [OF c m])
qed

lemma consistent_cong:
  assumes eq: "\<And>a b. a \<in> S \<Longrightarrow> b \<in> S \<Longrightarrow> cmp a b = cmp' a b"
    and c: "consistent cmp' S"
  shows "consistent cmp S"
proof (rule consistentI)
  fix a b assume "a \<in> S" "b \<in> S"
  with eq [of a b] consistent_not_NaN [OF c, of a b] show "cmp a b \<noteq> NaN" by simp
next
  fix a b assume "a \<in> S" "b \<in> S"
  with eq [of a b] eq [of b a] consistent_flip [OF c, of a b]
  show "js_sign (cmp a b) = - js_sign (cmp b a)" by simp
next
  fix a b c assume m: "a \<in> S" "b \<in> S" "c \<in> S"
    and "js_sign (cmp a b) \<le> 0" "js_sign (cmp b c) \<le> 0"
  with eq [of a b] eq [of b c] eq [of a c] consistent_trans [OF c m]
  show "js_sign (cmp a c) \<le> 0" by simp
qed

lemma consistent_map:
  assumes "consistent cmp (f ` S)"
  shows "consistent (\<lambda>a b. cmp (f a) (f b)) S"
proof (rule consistentI)
  fix a b assume "a \<in> S" "b \<in> S"
  then show "cmp (f a) (f b) \<noteq> NaN"
    using consistent_not_NaN [OF assms, of "f a" "f b"] by simp
next
  fix a b assume "a \<in> S" "b \<in> S"
  then show "js_sign (cmp (f a) (f b)) = - js_sign (cmp (f b) (f a))"
    using consistent_flip [OF assms, of "f a" "f b"] by simp
next
  fix a b c assume "a \<in> S" "b \<in> S" "c \<in> S"
    and "js_sign (cmp (f a) (f b)) \<le> 0" "js_sign (cmp (f b) (f c)) \<le> 0"
  then show "js_sign (cmp (f a) (f c)) \<le> 0"
    using consistent_trans [OF assms, of "f a" "f b" "f c"] by simp
qed

lemma consistent_swap:
  assumes "consistent cmp S"
  shows "consistent (\<lambda>a b. cmp b a) S"
proof (rule consistentI)
  fix a b assume "a \<in> S" "b \<in> S"
  then show "cmp b a \<noteq> NaN"
    using consistent_not_NaN [OF assms, of b a] by simp
next
  fix a b assume "a \<in> S" "b \<in> S"
  then show "js_sign (cmp b a) = - js_sign (cmp a b)"
    using consistent_flip [OF assms, of b a] by simp
next
  fix a b c assume "a \<in> S" "b \<in> S" "c \<in> S"
    and "js_sign (cmp b a) \<le> 0" "js_sign (cmp c b) \<le> 0"
  then show "js_sign (cmp c a) \<le> 0"
    using consistent_trans [OF assms, of c b a] by simp
qed

lemma consistent_lex:
  assumes c1: "consistent c1 S" and c2: "consistent c2 S"
  shows "consistent (lex_cmp c1 c2) S"
proof (rule consistentI)
  fix a b assume "a \<in> S" "b \<in> S"
  then show "lex_cmp c1 c2 a b \<noteq> NaN"
    using consistent_not_NaN [OF c1, of a b] consistent_not_NaN [OF c2, of a b]
    by (simp add: lex_cmp_def)
next
  fix a b assume "a \<in> S" "b \<in> S"
  then show "js_sign (lex_cmp c1 c2 a b) = - js_sign (lex_cmp c1 c2 b a)"
    using consistent_flip [OF c1, of a b] consistent_flip [OF c2, of a b]
    by (simp add: lex_cmp_def)
next
  fix a b c assume m: "a \<in> S" "b \<in> S" "c \<in> S"
    and ab: "js_sign (lex_cmp c1 c2 a b) \<le> 0" and bc: "js_sign (lex_cmp c1 c2 b c) \<le> 0"
  from ab have ab1: "js_sign (c1 a b) \<le> 0"
    by (simp add: lex_cmp_def split: if_splits)
  from bc have bc1: "js_sign (c1 b c) \<le> 0"
    by (simp add: lex_cmp_def split: if_splits)
  show "js_sign (lex_cmp c1 c2 a c) \<le> 0"
  proof (cases "js_sign (c1 a b) = 0 \<and> js_sign (c1 b c) = 0")
    case True
    with consistent_eq_trans [OF c1 m] have "js_sign (c1 a c) = 0" by simp
    moreover from True ab bc have "js_sign (c2 a b) \<le> 0" "js_sign (c2 b c) \<le> 0"
      by (simp_all add: lex_cmp_def)
    with consistent_trans [OF c2 m] have "js_sign (c2 a c) \<le> 0" by simp
    ultimately show ?thesis by (simp add: lex_cmp_def)
  next
    case False
    with ab1 bc1 have "js_sign (c1 a b) < 0 \<or> js_sign (c1 b c) < 0" by auto
    then have "js_sign (c1 a c) < 0"
      using consistent_strict_trans [OF c1 m _ bc1] consistent_strict_trans2 [OF c1 m ab1]
      by blast
    then show ?thesis by (simp add: lex_cmp_def)
  qed
qed

lemma consistent_sub: "\<forall>v \<in> S. isFinite v \<Longrightarrow> consistent (\<lambda>a b. js_sub a b) S"
proof (rule consistentI)
  fix a b assume "\<forall>v \<in> S. isFinite v" "a \<in> S" "b \<in> S"
  then have "isFinite a" "isFinite b" by auto
  then show "js_sub a b \<noteq> NaN"
    by (cases a; cases b) auto
next
  fix a b show "js_sign (js_sub a b) = - js_sign (js_sub b a)"
    by (rule js_sign_sub_flip)
next
  fix a b c assume "\<forall>v \<in> S. isFinite v" "a \<in> S" "b \<in> S" "c \<in> S"
  then have "isFinite a" "isFinite b" "isFinite c" by auto
  then have "a \<noteq> NaN" "b \<noteq> NaN" "c \<noteq> NaN" by auto
  then show "js_sign (js_sub a b) \<le> 0 \<Longrightarrow> js_sign (js_sub b c) \<le> 0 \<Longrightarrow> js_sign (js_sub a c) \<le> 0"
    by (rule js_sign_sub_trans)
qed

text \<open>The difference of two numbers that differ, as the comparator of \<^verbatim>\<open>sortTasks\<close> takes it.\<close>

lemma consistent_differ:
  "NaN \<notin> S \<Longrightarrow> consistent (\<lambda>x y. if js_neq x y then js_sub x y else Fin 0) S"
proof (rule consistentI)
  fix a b assume "NaN \<notin> S" "a \<in> S" "b \<in> S"
  then have "a \<noteq> NaN" "b \<noteq> NaN" by auto
  then show "(if js_neq a b then js_sub a b else Fin 0) \<noteq> NaN"
    by (cases a; cases b) (auto simp: js_neq_def)
next
  fix a b :: jsnum
  show "js_sign (if js_neq a b then js_sub a b else Fin 0)
      = - js_sign (if js_neq b a then js_sub b a else Fin 0)"
    by (cases a; cases b) (auto simp: js_neq_def)
next
  fix a b c assume "NaN \<notin> S" "a \<in> S" "b \<in> S" "c \<in> S"
  then have "a \<noteq> NaN" "b \<noteq> NaN" "c \<noteq> NaN" by auto
  then show "js_sign (if js_neq a b then js_sub a b else Fin 0) \<le> 0 \<Longrightarrow>
      js_sign (if js_neq b c then js_sub b c else Fin 0) \<le> 0 \<Longrightarrow>
      js_sign (if js_neq a c then js_sub a c else Fin 0) \<le> 0"
    by (cases a; cases b; cases c) (auto simp: js_neq_def split: if_splits)
qed

lemma consistent_weight:
  "consistent (\<lambda>a b. Fin (of_int (priorityWeight b - priorityWeight a))) S"
proof (rule consistentI)
  fix a b :: "'a DerivedTask_scheme"
  show "Fin (of_int (priorityWeight b - priorityWeight a)) \<noteq> NaN"
    by simp
next
  fix a b :: "'a DerivedTask_scheme"
  show "js_sign (Fin (of_int (priorityWeight b - priorityWeight a)))
      = - js_sign (Fin (of_int (priorityWeight a - priorityWeight b)))"
    unfolding js_sign_of_int by (simp add: sgn_if)
next
  fix a b c :: "'a DerivedTask_scheme"
  assume "js_sign (Fin (of_int (priorityWeight b - priorityWeight a))) \<le> 0"
    "js_sign (Fin (of_int (priorityWeight c - priorityWeight b))) \<le> 0"
  then show "js_sign (Fin (of_int (priorityWeight c - priorityWeight a))) \<le> 0"
    unfolding js_sign_of_int by (simp add: sgn_if split: if_splits)
qed

lemma consistent_collate:
  assumes "consistent_collation lc"
  shows "consistent (\<lambda>a b. Fin (of_int (lc (f a) (f b)))) S"
proof (rule consistentI)
  fix a b show "Fin (of_int (lc (f a) (f b))) \<noteq> NaN"
    by simp
next
  fix a b
  from assms have "sgn (lc (f a) (f b)) = - sgn (lc (f b) (f a))"
    unfolding consistent_collation_def by blast
  then show "js_sign (Fin (of_int (lc (f a) (f b)))) = - js_sign (Fin (of_int (lc (f b) (f a))))"
    by (simp only: js_sign_of_int)
next
  fix a b c
  assume "js_sign (Fin (of_int (lc (f a) (f b)))) \<le> 0" "js_sign (Fin (of_int (lc (f b) (f c)))) \<le> 0"
  then have "lc (f a) (f b) \<le> 0" "lc (f b) (f c) \<le> 0"
    by (simp_all only: js_sign_of_int sgn_if split: if_splits)
  with assms have "lc (f a) (f c) \<le> 0"
    unfolding consistent_collation_def by blast
  then show "js_sign (Fin (of_int (lc (f a) (f c)))) \<le> 0"
    by (simp add: js_sign_of_int sgn_if)
qed

lemma roi_or_neginf_NaN: "(roi_or_neginf t = NaN) = (roi t = Some NaN)"
  by (simp add: roi_or_neginf_def split: option.splits)

lemma js_sign_sub_neq: "x \<noteq> NaN \<Longrightarrow> y \<noteq> NaN \<Longrightarrow> x \<noteq> y \<Longrightarrow> js_sign (js_sub x y) \<noteq> 0"
  by (cases x; cases y) auto

text \<open>The comparator of \<^verbatim>\<open>sortTasks\<close> is five comparators, each asked when those before it find no difference.\<close>

lemma sortTasks_cmp_chain:
  assumes a: "roi a \<noteq> Some NaN" "truthy (createdAt a)"
    and b: "roi b \<noteq> Some NaN" "truthy (createdAt b)"
  shows "sortTasks_cmp lc a b =
    lex_cmp (\<lambda>a b. if js_neq (roi_or_neginf b) (roi_or_neginf a)
                    then js_sub (roi_or_neginf b) (roi_or_neginf a) else Fin 0)
      (lex_cmp (\<lambda>a b. Fin (of_int (priorityWeight b - priorityWeight a)))
        (lex_cmp (\<lambda>a b. Fin (of_int (lc (createdAt b) (createdAt a))))
          (lex_cmp (\<lambda>a b. Fin (of_int (lc (title a) (title b))))
            (\<lambda>a b. Fin (of_int (lc (task_id a) (task_id b))))))) a b"
proof -
  from a b have n: "roi_or_neginf a \<noteq> NaN" "roi_or_neginf b \<noteq> NaN"
    by (simp_all add: roi_or_neginf_NaN)
  show ?thesis
  proof (cases "roi_or_neginf b = roi_or_neginf a")
    case False
    with n have "js_sign (js_sub (roi_or_neginf b) (roi_or_neginf a)) \<noteq> 0"
      by (simp add: js_sign_sub_neq)
    with False show ?thesis
      by (simp add: sortTasks_cmp_def lex_cmp_def js_neq_def)
  next
    case True
    with n have r: "\<not> js_neq (roi_or_neginf b) (roi_or_neginf a)"
      by (simp add: js_neq_def)
    show ?thesis
      unfolding sortTasks_cmp_def lex_cmp_def Let_def
      using r a b by simp
  qed
qed

text \<open>
  Where no \<open>roi\<close> is NaN and no \<^verbatim>\<open>createdAt\<close> is empty, the comparator of \<^verbatim>\<open>sortTasks\<close>
  is consistent.
\<close>

lemma consistent_sortTasks_cmp:
  assumes lc: "consistent_collation lc"
    and ok: "\<forall>t \<in> S. roi t \<noteq> Some NaN \<and> truthy (createdAt t)"
  shows "consistent (sortTasks_cmp lc) S"
proof (rule consistent_cong [OF sortTasks_cmp_chain])
  fix a b assume "a \<in> S" "b \<in> S"
  with ok show "roi a \<noteq> Some NaN" "truthy (createdAt a)" "roi b \<noteq> Some NaN" "truthy (createdAt b)"
    by auto
next
  from ok have "NaN \<notin> roi_or_neginf ` S"
    by (auto simp: roi_or_neginf_NaN dest: sym)
  then have "consistent (\<lambda>x y. if js_neq x y then js_sub x y else Fin 0) (roi_or_neginf ` S)"
    by (rule consistent_differ)
  then have "consistent (\<lambda>a b. if js_neq (roi_or_neginf a) (roi_or_neginf b)
      then js_sub (roi_or_neginf a) (roi_or_neginf b) else Fin 0) S"
    by (rule consistent_map)
  then have r: "consistent (\<lambda>a b. if js_neq (roi_or_neginf b) (roi_or_neginf a)
      then js_sub (roi_or_neginf b) (roi_or_neginf a) else Fin 0) S"
    by (rule consistent_swap)
  have c: "consistent (\<lambda>a b. Fin (of_int (lc (createdAt b) (createdAt a)))) S"
    by (rule consistent_swap) (rule consistent_collate [OF lc])
  show "consistent (lex_cmp (\<lambda>a b. if js_neq (roi_or_neginf b) (roi_or_neginf a)
                    then js_sub (roi_or_neginf b) (roi_or_neginf a) else Fin 0)
      (lex_cmp (\<lambda>a b. Fin (of_int (priorityWeight b - priorityWeight a)))
        (lex_cmp (\<lambda>a b. Fin (of_int (lc (createdAt b) (createdAt a))))
          (lex_cmp (\<lambda>a b. Fin (of_int (lc (title a) (title b))))
            (\<lambda>a b. Fin (of_int (lc (task_id a) (task_id b)))))))) S"
    by (intro consistent_lex r c consistent_weight consistent_collate [OF lc])
qed

subsection \<open>What the language fixes\<close>

lemma sorted_stable_unique:
  assumes c: "consistent cmp (set ys)"
    and m: "mset zs = mset ys"
    and sy: "sorted_wrt (\<lambda>a b. \<not> js_gt (cmp a b) (Fin 0)) ys"
    and sz: "sorted_wrt (\<lambda>a b. \<not> js_gt (cmp a b) (Fin 0)) zs"
    and st: "\<forall>a \<in> set ys. filter (\<lambda>b. js_sign (cmp a b) = 0) zs
                          = filter (\<lambda>b. js_sign (cmp a b) = 0) ys"
  shows "zs = ys"
  using c m sy sz st
proof (induction ys arbitrary: zs)
  case Nil
  then show ?case by simp
next
  case (Cons y ys)
  from Cons.prems(2) obtain z zs' where zs: "zs = z # zs'"
    by (cases zs) auto
  have yy: "js_sign (cmp y y) = 0"
    using consistent_refl [OF Cons.prems(1), of y] by simp
  from Cons.prems(5) yy zs
  have f: "filter (\<lambda>b. js_sign (cmp y b) = 0) (z # zs') = y # filter (\<lambda>b. js_sign (cmp y b) = 0) ys"
    by simp
  have zy: "z = y"
  proof (rule ccontr)
    assume ne: "z \<noteq> y"
    from Cons.prems(2) zs have zin: "z \<in> set (y # ys)"
      by (metis list.set_intros(1) set_mset_mset)
    from Cons.prems(2) zs have yin: "y \<in> set (z # zs')"
      by (metis list.set_intros(1) set_mset_mset)
    from zin ne Cons.prems(3) have "js_sign (cmp y z) \<le> 0"
      by (auto simp: not_gt_sign)
    moreover from yin ne Cons.prems(4) zs have "js_sign (cmp z y) \<le> 0"
      by (auto simp: not_gt_sign)
    moreover have "js_sign (cmp y z) = - js_sign (cmp z y)"
      using consistent_flip [OF Cons.prems(1), of y z] zin by simp
    ultimately have "js_sign (cmp y z) = 0" by simp
    with f have "z = y" by simp
    with ne show False by simp
  qed
  have "zs' = ys"
  proof (rule Cons.IH)
    show "consistent cmp (set ys)"
      using Cons.prems(1) by (rule consistent_mono) auto
    show "mset zs' = mset ys"
      using Cons.prems(2) zs zy by simp
    show "sorted_wrt (\<lambda>a b. \<not> js_gt (cmp a b) (Fin 0)) ys"
      using Cons.prems(3) by simp
    show "sorted_wrt (\<lambda>a b. \<not> js_gt (cmp a b) (Fin 0)) zs'"
      using Cons.prems(4) zs by simp
    show "\<forall>a \<in> set ys. filter (\<lambda>b. js_sign (cmp a b) = 0) zs'
                          = filter (\<lambda>b. js_sign (cmp a b) = 0) ys"
    proof
      fix a assume "a \<in> set ys"
      with Cons.prems(5) zs zy
      have "filter (\<lambda>b. js_sign (cmp a b) = 0) (y # zs') = filter (\<lambda>b. js_sign (cmp a b) = 0) (y # ys)"
        by simp
      then show "filter (\<lambda>b. js_sign (cmp a b) = 0) zs' = filter (\<lambda>b. js_sign (cmp a b) = 0) ys"
        by (simp split: if_splits)
    qed
  qed
  with zs zy show ?case by simp
qed

lemma engine_sort_mset: "engine_sort srt \<Longrightarrow> mset (srt cmp xs) = mset xs"
  unfolding engine_sort_def by blast

lemma engine_sort_set: "engine_sort srt \<Longrightarrow> set (srt cmp xs) = set xs"
  using engine_sort_mset [of srt cmp xs] by (metis set_mset_mset)

lemma engine_sort_length: "engine_sort srt \<Longrightarrow> length (srt cmp xs) = length xs"
  using engine_sort_mset [of srt cmp xs] by (metis size_mset)

lemma engine_sort_sorted:
  "engine_sort srt \<Longrightarrow> consistent cmp (set xs) \<Longrightarrow>
   sorted_wrt (\<lambda>a b. \<not> js_gt (cmp a b) (Fin 0)) (srt cmp xs)"
  unfolding engine_sort_def by blast

lemma engine_sort_stable:
  "engine_sort srt \<Longrightarrow> consistent cmp (set xs) \<Longrightarrow>
   \<forall>a \<in> set xs. filter (\<lambda>b. js_sign (cmp a b) = 0) (srt cmp xs)
                = filter (\<lambda>b. js_sign (cmp a b) = 0) xs"
  unfolding engine_sort_def by blast

text \<open>On a consistent comparator the result is the same in every engine.\<close>

lemma engine_sort_unique:
  assumes e1: "engine_sort s1" and e2: "engine_sort s2" and c: "consistent cmp (set xs)"
  shows "s1 cmp xs = s2 cmp xs"
proof (rule sorted_stable_unique)
  show "consistent cmp (set (s2 cmp xs))"
    using c by (simp add: engine_sort_set [OF e2])
  show "mset (s1 cmp xs) = mset (s2 cmp xs)"
    by (simp add: engine_sort_mset [OF e1] engine_sort_mset [OF e2])
  show "sorted_wrt (\<lambda>a b. \<not> js_gt (cmp a b) (Fin 0)) (s2 cmp xs)"
    by (rule engine_sort_sorted [OF e2 c])
  show "sorted_wrt (\<lambda>a b. \<not> js_gt (cmp a b) (Fin 0)) (s1 cmp xs)"
    by (rule engine_sort_sorted [OF e1 c])
  show "\<forall>a \<in> set (s2 cmp xs). filter (\<lambda>b. js_sign (cmp a b) = 0) (s1 cmp xs)
                          = filter (\<lambda>b. js_sign (cmp a b) = 0) (s2 cmp xs)"
    using engine_sort_stable [OF e1 c] engine_sort_stable [OF e2 c]
    by (simp add: engine_sort_set [OF e2])
qed

text \<open>Sorting a sorted array again returns it.\<close>

lemma engine_sort_idem:
  assumes e: "engine_sort srt" and c: "consistent cmp (set xs)"
  shows "srt cmp (srt cmp xs) = srt cmp xs"
proof (rule sorted_stable_unique)
  have c': "consistent cmp (set (srt cmp xs))"
    using c by (simp add: engine_sort_set [OF e])
  then show "consistent cmp (set (srt cmp xs))" .
  show "mset (srt cmp (srt cmp xs)) = mset (srt cmp xs)"
    by (rule engine_sort_mset [OF e])
  show "sorted_wrt (\<lambda>a b. \<not> js_gt (cmp a b) (Fin 0)) (srt cmp xs)"
    by (rule engine_sort_sorted [OF e c])
  show "sorted_wrt (\<lambda>a b. \<not> js_gt (cmp a b) (Fin 0)) (srt cmp (srt cmp xs))"
    by (rule engine_sort_sorted [OF e c'])
  show "\<forall>a \<in> set (srt cmp xs). filter (\<lambda>b. js_sign (cmp a b) = 0) (srt cmp (srt cmp xs))
                          = filter (\<lambda>b. js_sign (cmp a b) = 0) (srt cmp xs)"
    by (rule engine_sort_stable [OF e c'])
qed

subsection \<open>The stable insertion\<close>

lemma sorted_sort_insert:
  assumes asym: "\<And>a b. a \<in> S \<Longrightarrow> b \<in> S \<Longrightarrow>
        js_gt (cmp a b) (Fin 0) \<Longrightarrow> \<not> js_gt (cmp b a) (Fin 0)"
    and trans: "\<And>a b c. a \<in> S \<Longrightarrow> b \<in> S \<Longrightarrow> c \<in> S \<Longrightarrow>
        \<not> js_gt (cmp a b) (Fin 0) \<Longrightarrow> \<not> js_gt (cmp b c) (Fin 0) \<Longrightarrow> \<not> js_gt (cmp a c) (Fin 0)"
    and sub: "insert x (set ys) \<subseteq> S"
    and srt: "sorted_wrt (\<lambda>a b. \<not> js_gt (cmp a b) (Fin 0)) ys"
  shows "sorted_wrt (\<lambda>a b. \<not> js_gt (cmp a b) (Fin 0)) (sort_insert cmp x ys)"
  using sub srt
proof (induction ys)
  case Nil
  then show ?case by simp
next
  case (Cons y ys)
  show ?case
  proof (cases "js_gt (cmp x y) (Fin 0)")
    case True
    with Cons.prems have yx: "\<not> js_gt (cmp y x) (Fin 0)"
      by (intro asym [of x y]) auto
    from Cons have "sorted_wrt (\<lambda>a b. \<not> js_gt (cmp a b) (Fin 0)) (sort_insert cmp x ys)"
      by simp
    with True yx Cons.prems show ?thesis
      by (simp add: set_sort_insert)
  next
    case False
    have "\<not> js_gt (cmp x z) (Fin 0)" if z: "z \<in> set ys" for z
    proof -
      from z Cons.prems have "\<not> js_gt (cmp y z) (Fin 0)" by simp
      moreover from z Cons.prems have "x \<in> S" "y \<in> S" "z \<in> S" by auto
      ultimately show ?thesis using False trans by blast
    qed
    with False Cons.prems show ?thesis
      by simp
  qed
qed

lemma sorted_Array_sort:
  assumes asym: "\<And>a b. a \<in> S \<Longrightarrow> b \<in> S \<Longrightarrow>
        js_gt (cmp a b) (Fin 0) \<Longrightarrow> \<not> js_gt (cmp b a) (Fin 0)"
    and trans: "\<And>a b c. a \<in> S \<Longrightarrow> b \<in> S \<Longrightarrow> c \<in> S \<Longrightarrow>
        \<not> js_gt (cmp a b) (Fin 0) \<Longrightarrow> \<not> js_gt (cmp b c) (Fin 0) \<Longrightarrow> \<not> js_gt (cmp a c) (Fin 0)"
    and sub: "set xs \<subseteq> S"
  shows "sorted_wrt (\<lambda>a b. \<not> js_gt (cmp a b) (Fin 0)) (Array_sort cmp xs)"
  using sub
proof (induction xs)
  case Nil
  then show ?case by simp
next
  case (Cons x xs)
  then have ih: "sorted_wrt (\<lambda>a b. \<not> js_gt (cmp a b) (Fin 0)) (Array_sort cmp xs)"
    by simp
  from Cons.prems have "insert x (set (Array_sort cmp xs)) \<subseteq> S"
    by (simp add: set_Array_sort)
  from sorted_sort_insert [where cmp = cmp and S = S and x = x and ys = "Array_sort cmp xs",
      OF asym trans this ih]
  show ?case by simp
qed

lemma filter_sort_insert:
  assumes c: "consistent cmp S" and a: "a \<in> S" and x: "x \<in> S" and ys: "set ys \<subseteq> S"
  shows "filter (\<lambda>b. js_sign (cmp a b) = 0) (sort_insert cmp x ys)
       = filter (\<lambda>b. js_sign (cmp a b) = 0) (x # ys)"
  using ys
proof (induction ys)
  case Nil
  then show ?case by simp
next
  case (Cons y ys)
  then have ih: "filter (\<lambda>b. js_sign (cmp a b) = 0) (sort_insert cmp x ys)
       = filter (\<lambda>b. js_sign (cmp a b) = 0) (x # ys)" by simp
  from Cons.prems have y: "y \<in> S" by simp
  show ?case
  proof (cases "js_gt (cmp x y) (Fin 0)")
    case False
    then show ?thesis by simp
  next
    case True
    have "\<not> (js_sign (cmp a x) = 0 \<and> js_sign (cmp a y) = 0)"
    proof
      assume h: "js_sign (cmp a x) = 0 \<and> js_sign (cmp a y) = 0"
      with consistent_flip [OF c x a] have "js_sign (cmp x a) = 0" by simp
      with consistent_eq_trans [OF c x a y] h have "js_sign (cmp x y) = 0" by simp
      with True show False by (simp add: js_gt_zero_sign)
    qed
    with True ih show ?thesis by auto
  qed
qed

lemma filter_Array_sort:
  assumes c: "consistent cmp S" and a: "a \<in> S" and xs: "set xs \<subseteq> S"
  shows "filter (\<lambda>b. js_sign (cmp a b) = 0) (Array_sort cmp xs)
       = filter (\<lambda>b. js_sign (cmp a b) = 0) xs"
  using xs
proof (induction xs)
  case Nil
  then show ?case by simp
next
  case (Cons x xs)
  then have ih: "filter (\<lambda>b. js_sign (cmp a b) = 0) (Array_sort cmp xs)
       = filter (\<lambda>b. js_sign (cmp a b) = 0) xs" by simp
  from Cons.prems have "x \<in> S" "set (Array_sort cmp xs) \<subseteq> S"
    by (simp_all add: set_Array_sort)
  from filter_sort_insert [OF c a this] ih show ?case by simp
qed

text \<open>The stable insertion is a sort as the language asks.\<close>

lemma Array_sort_engine: "engine_sort Array_sort"
  unfolding engine_sort_def
proof (intro allI conjI impI ballI)
  fix cmp :: "'a \<Rightarrow> 'a \<Rightarrow> jsnum" and xs
  show "mset (Array_sort cmp xs) = mset xs"
    by (rule mset_Array_sort)
next
  fix cmp :: "'a \<Rightarrow> 'a \<Rightarrow> jsnum" and xs :: "'a list"
  assume c: "consistent cmp (set xs)"
  have asym: "\<not> js_gt (cmp b a) (Fin 0)"
    if "a \<in> set xs" "b \<in> set xs" "js_gt (cmp a b) (Fin 0)" for a b
    using consistent_flip [OF c that(1,2)] that(3) by (simp add: js_gt_zero_sign)
  show "sorted_wrt (\<lambda>a b. \<not> js_gt (cmp a b) (Fin 0)) (Array_sort cmp xs)"
  proof (rule sorted_Array_sort [where S = "set xs"])
    fix a b assume "a \<in> set xs" "b \<in> set xs" "js_gt (cmp a b) (Fin 0)"
    then show "\<not> js_gt (cmp b a) (Fin 0)" by (rule asym)
  next
    fix a b c assume "a \<in> set xs" "b \<in> set xs" "c \<in> set xs"
      "\<not> js_gt (cmp a b) (Fin 0)" "\<not> js_gt (cmp b c) (Fin 0)"
    then show "\<not> js_gt (cmp a c) (Fin 0)"
      using consistent_trans [OF c, of a b c] by (simp add: not_gt_sign)
  qed simp
next
  fix cmp :: "'a \<Rightarrow> 'a \<Rightarrow> jsnum" and xs a
  assume "consistent cmp (set xs)" "a \<in> set xs"
  then show "filter (\<lambda>b. js_sign (cmp a b) = 0) (Array_sort cmp xs)
           = filter (\<lambda>b. js_sign (cmp a b) = 0) xs"
    by (rule filter_Array_sort) simp
qed

lemma localeCompare_flip: "localeCompare a b = - localeCompare b a"
  by (induction a b rule: localeCompare.induct) auto

lemma localeCompare_trans:
  "localeCompare a b \<le> 0 \<Longrightarrow> localeCompare b c \<le> 0 \<Longrightarrow> localeCompare a c \<le> 0"
proof (induction a arbitrary: b c)
  case Nil
  then show ?case by (cases c) auto
next
  case (Cons x xs)
  from Cons.prems(1) obtain y ys where b: "b = y # ys"
    by (cases b) auto
  from Cons.prems(2) b obtain z zs where c: "c = z # zs"
    by (cases c) auto
  from Cons.prems b c Cons.IH [of ys zs] show ?case
    by (auto split: if_splits)
qed

lemma localeCompare_consistent: "consistent_collation localeCompare"
  unfolding consistent_collation_def
proof (intro conjI allI impI)
  fix a b show "sgn (localeCompare a b) = - sgn (localeCompare b a)"
    using localeCompare_flip [of a b] by simp
next
  fix a b c assume "localeCompare a b \<le> 0 \<and> localeCompare b c \<le> 0"
  then show "localeCompare a c \<le> 0"
    using localeCompare_trans [of a b c] by simp
qed

subsection \<open>The ranking\<close>

lemma sortTasks_null_behind:
  assumes s: "sorted_wrt (\<lambda>a b. \<not> js_gt (sortTasks_cmp lc a b) (Fin 0)) ys"
    and ij: "i < length ys" "j < length ys"
    and r: "roi (ys ! i) = None" "roi (ys ! j) = Some v" "isFinite v"
  shows "j < i"
proof (rule ccontr)
  assume "\<not> j < i"
  moreover from r have "i \<noteq> j" by auto
  ultimately have lt: "i < j" by simp
  from sorted_wrt_nth_less [OF s lt ij(2)]
  have "\<not> js_gt (sortTasks_cmp lc (ys ! i) (ys ! j)) (Fin 0)" .
  moreover from r obtain q where "v = Fin q" by (cases v) auto
  with r have "sortTasks_cmp lc (ys ! i) (ys ! j) = PosInf"
    by (simp add: sortTasks_cmp_def roi_or_neginf_def js_neq_def)
  ultimately show False by simp
qed

text \<open>
  C7 (as amended). Let \<open>srt\<close> be the sort of the engine, which does what the language
  asks of it, and \<open>lc\<close> the collation of the runtime, a consistent ordering. For every
  list of derived tasks, \<open>sortTasks\<close> returns a permutation of its argument, of the
  same length (the argument itself is not touched: the program sorts a copy, the
  function returns a new list). For every list on which the comparator of \<^verbatim>\<open>sortTasks\<close>
  is consistent, as it is on every list in which no \<open>roi\<close> is NaN and no \<^verbatim>\<open>createdAt\<close>
  is empty, sorting the result again changes nothing, and in the result every task
  whose \<open>roi\<close> is null stands behind every task whose \<open>roi\<close> is finite. Where the
  comparator is not consistent, the language leaves the order of the result to the
  engine.
\<close>

theorem sortTasks_perm_idem_nulls_last:
  assumes e: "engine_sort srt" and lc: "consistent_collation lc"
  shows "mset (sortTasks srt lc xs) = mset xs
   \<and> length (sortTasks srt lc xs) = length xs
   \<and> ((\<forall>t \<in> set xs. roi t \<noteq> Some NaN \<and> truthy (createdAt t)) \<longrightarrow>
        consistent (sortTasks_cmp lc) (set xs))
   \<and> (consistent (sortTasks_cmp lc) (set xs) \<longrightarrow>
        sortTasks srt lc (sortTasks srt lc xs) = sortTasks srt lc xs
        \<and> (\<forall>i j v. i < length xs \<and> j < length xs
              \<and> roi (sortTasks srt lc xs ! i) = None
              \<and> roi (sortTasks srt lc xs ! j) = Some v \<and> isFinite v
              \<longrightarrow> j < i))"
proof (intro conjI impI allI)
  show "mset (sortTasks srt lc xs) = mset xs"
    unfolding sortTasks_def by (rule engine_sort_mset [OF e])
  show "length (sortTasks srt lc xs) = length xs"
    unfolding sortTasks_def by (rule engine_sort_length [OF e])
next
  assume "\<forall>t \<in> set xs. roi t \<noteq> Some NaN \<and> truthy (createdAt t)"
  with lc show "consistent (sortTasks_cmp lc) (set xs)"
    by (rule consistent_sortTasks_cmp)
next
  assume "consistent (sortTasks_cmp lc) (set xs)"
  then show "sortTasks srt lc (sortTasks srt lc xs) = sortTasks srt lc xs"
    unfolding sortTasks_def by (rule engine_sort_idem [OF e])
next
  fix i j v
  assume c: "consistent (sortTasks_cmp lc) (set xs)"
    and h: "i < length xs \<and> j < length xs
              \<and> roi (sortTasks srt lc xs ! i) = None
              \<and> roi (sortTasks srt lc xs ! j) = Some v \<and> isFinite v"
  from c have "sorted_wrt (\<lambda>a b. \<not> js_gt (sortTasks_cmp lc a b) (Fin 0)) (sortTasks srt lc xs)"
    unfolding sortTasks_def by (rule engine_sort_sorted [OF e])
  moreover have "length (sortTasks srt lc xs) = length xs"
    unfolding sortTasks_def by (rule engine_sort_length [OF e])
  ultimately show "j < i"
    using h by (intro sortTasks_null_behind [of lc "sortTasks srt lc xs" i j v]) simp_all
qed

theorem sortTasks_perm_idem_nulls_last_witness:
  "map task_id (sortTasks Array_sort localeCompare (map (withDerived exact) ranked))
     = [''c'', ''a'', ''b'']
   \<and> map roi (sortTasks Array_sort localeCompare (map (withDerived exact) ranked))
     = [Some (Fin 140), Some (Fin 20), None]
   \<and> sortTasks Array_sort localeCompare
         (sortTasks Array_sort localeCompare (map (withDerived exact) ranked))
     = sortTasks Array_sort localeCompare (map (withDerived exact) ranked)
   \<and> mset (sortTasks Array_sort localeCompare (map (withDerived exact) ranked))
     = mset (map (withDerived exact) ranked)
   \<and> Some NaN \<notin> set (map roi (map (withDerived exact) ranked))
   \<and> [] \<notin> set (map createdAt (map (withDerived exact) ranked))"
proof -
  have run: "map task_id (sortTasks Array_sort localeCompare (map (withDerived exact) ranked))
     = [''c'', ''a'', ''b'']
   \<and> map roi (sortTasks Array_sort localeCompare (map (withDerived exact) ranked))
     = [Some (Fin 140), Some (Fin 20), None]"
    by code_simp
  have given: "map roi (map (withDerived exact) ranked) = [Some (Fin 20), None, Some (Fin 140)]
     \<and> map createdAt (map (withDerived exact) ranked)
       = [''2024-01-01T00:00:00.000Z'', ''2024-01-01T00:00:00.000Z'', ''2024-01-01T00:00:00.000Z'']"
    by code_simp
  then have ok: "\<forall>t \<in> set (map (withDerived exact) ranked). roi t \<noteq> Some NaN \<and> truthy (createdAt t)"
    by (simp add: ranked_def truthy_def)
  from given have no: "Some NaN \<notin> set (map roi (map (withDerived exact) ranked))
     \<and> [] \<notin> set (map createdAt (map (withDerived exact) ranked))"
    by (simp del: map_map)
  from sortTasks_perm_idem_nulls_last [OF Array_sort_engine localeCompare_consistent,
      of "map (withDerived exact) ranked"] run ok no
  show ?thesis
    by (simp del: map_map)
qed

text \<open>
  C7 as stated fails on a list in which a \<open>roi\<close> is NaN. Of the three tasks the first
  has no \<open>roi\<close>, the second the \<open>roi\<close> NaN and the third the \<open>roi\<close> 5: the comparator
  answers NaN, which a sort reads as 0, on the first and the second and on the second
  and the third, so that no comparison of neighbours asks for a move. The list stays
  as it is, the task without \<open>roi\<close> before the task with the finite one.
\<close>

theorem sortTasks_perm_idem_nulls_last_counterexample:
  "map roi (sortTasks Array_sort localeCompare nan_between) = [None, Some NaN, Some (Fin 5)]
   \<and> sortTasks_cmp localeCompare (nan_between ! 0) (nan_between ! 1) = NaN
   \<and> sortTasks_cmp localeCompare (nan_between ! 1) (nan_between ! 0) = NaN
   \<and> sortTasks_cmp localeCompare (nan_between ! 1) (nan_between ! 2) = NaN
   \<and> sortTasks_cmp localeCompare (nan_between ! 2) (nan_between ! 1) = NaN
   \<and> roi (sortTasks Array_sort localeCompare nan_between ! 0) = None
   \<and> roi (sortTasks Array_sort localeCompare nan_between ! 2) = Some (Fin 5)
   \<and> isFinite (Fin 5)"
  by code_simp

subsection \<open>Ingestion\<close>

lemma map_from_nth:
  "map_from f k xs = Inr out \<Longrightarrow>
     length out = length xs \<and> (\<forall>i < length xs. f (xs ! i) (k + i) = Inr (out ! i))"
proof (induction xs arbitrary: k out)
  case Nil
  then show ?case by simp
next
  case (Cons x xs)
  from Cons.prems obtain y ys where
    y: "f x k = Inr y" and ys: "map_from f (Suc k) xs = Inr ys" and out: "out = y # ys"
    by (auto split: sum.splits)
  from Cons.IH [OF ys] have len: "length ys = length xs"
    and rest: "\<forall>i < length xs. f (xs ! i) (Suc k + i) = Inr (ys ! i)"
    by simp_all
  have "f ((x # xs) ! i) (k + i) = Inr (out ! i)" if "i < length (x # xs)" for i
  proof (cases i)
    case 0
    with y out show ?thesis by simp
  next
    case (Suc n)
    with that rest out show ?thesis by simp
  qed
  with len out show ?case by simp
qed

lemma map_from_defined:
  "(\<forall>i < length xs. \<exists>y. f (xs ! i) (k + i) = Inr y) \<Longrightarrow> \<exists>out. map_from f k xs = Inr out"
proof (induction xs arbitrary: k)
  case Nil
  then show ?case by simp
next
  case (Cons x xs)
  from Cons.prems [rule_format, of 0] obtain y where y: "f x k = Inr y"
    by auto
  have "\<forall>i < length xs. \<exists>y. f (xs ! i) (Suc k + i) = Inr y"
  proof (intro allI impI)
    fix i assume "i < length xs"
    with Cons.prems [rule_format, of "Suc i"] show "\<exists>y. f (xs ! i) (Suc k + i) = Inr y"
      by simp
  qed
  from Cons.IH [OF this] obtain ys where "map_from f (Suc k) xs = Inr ys" ..
  with y show ?case by simp
qed

lemma toISOString_Inr: "toISOString d = Inr s \<Longrightarrow> \<exists>t. d = Some t"
  by (cases d) (auto simp: toISOString_def)

lemma toISOString_Some: "\<exists>s. toISOString (Some t) = Inr s"
  by (simp add: toISOString_def Let_def)

lemma toISOString_None: "toISOString None = Inl RangeError"
  by (simp add: toISOString_def)

lemma normalize_one_createdAt:
  "normalize_one parse now genId t idx = Inr x \<Longrightarrow>
   toISOString (created_of parse now idx t) = Inr (createdAt x)"
  by (auto simp: normalize_one_def Let_def split: sum.splits)

lemma created_of_missing:
  "created_of parse now idx t = TimeClip (now - (int idx + 1) * msPerDay)"
  if "\<not> truthy_opt (r_createdAt t)"
proof -
  have "(int idx + 1) * 24 * 3600 * 1000 = (int idx + 1) * msPerDay"
    by (simp add: msPerDay_def)
  then show ?thesis
    using that by (auto simp: created_of_def truthy_opt_def split: option.splits)
qed

text \<open>The callback returns on the records that \<open>normalizes\<close> describes, and throws on the others.\<close>

lemma completed_of_returns:
  "(\<exists>r. completed_of (Some c) t = Inr r)
     = (truthy_opt (r_completedAt t) \<or> r_status t \<noteq> Done
        \<or> TimeClip (c + 24 * 3600 * 1000) \<noteq> None)"
proof (cases "TimeClip (c + 24 * 3600 * 1000)")
  case None
  then show ?thesis
    by (simp add: completed_of_def toISOString_None)
next
  case (Some d)
  obtain s where "toISOString (Some d) = Inr s"
    using toISOString_Some by blast
  with Some show ?thesis
    by (simp add: completed_of_def)
qed

lemma normalize_one_returns:
  "(\<exists>x. normalize_one parse now genId t idx = Inr x) = normalizes parse now idx t"
proof (cases "created_of parse now idx t")
  case None
  have "\<exists>e. normalize_one parse now genId t idx = Inl e"
    unfolding normalize_one_def Let_def None toISOString_None
    by (simp split: sum.splits)
  with None show ?thesis
    by (auto simp: normalizes_def)
next
  case (Some c)
  obtain s where s: "toISOString (Some c) = Inr s"
    using toISOString_Some by blast
  have "(\<exists>x. normalize_one parse now genId t idx = Inr x)
      = (\<exists>r. completed_of (Some c) t = Inr r)"
    unfolding normalize_one_def Let_def Some s
    by (cases "completed_of (Some c) t") simp_all
  with Some show ?thesis
    by (simp only: completed_of_returns normalizes_def option.case)
qed

lemma normalizeTasks_returns:
  "(\<exists>out. normalizeTasks parse now genId input = Inr out)
     = (\<forall>i < length input. normalizes parse now i (input ! i))"
proof
  assume "\<exists>out. normalizeTasks parse now genId input = Inr out"
  then obtain out where "map_from (normalize_one parse now genId) 0 input = Inr out"
    by (auto simp: normalizeTasks_def)
  from map_from_nth [OF this]
  have "\<forall>i < length input. normalize_one parse now genId (input ! i) i = Inr (out ! i)"
    by simp
  then have "\<forall>i < length input. \<exists>x. normalize_one parse now genId (input ! i) i = Inr x"
    by blast
  then show "\<forall>i < length input. normalizes parse now i (input ! i)"
    by (simp only: normalize_one_returns)
next
  assume "\<forall>i < length input. normalizes parse now i (input ! i)"
  then have "\<forall>i < length input. \<exists>x. normalize_one parse now genId (input ! i) (0 + i) = Inr x"
    by (simp add: normalize_one_returns)
  then show "\<exists>out. normalizeTasks parse now genId input = Inr out"
    unfolding normalizeTasks_def by (rule map_from_defined)
qed

text \<open>
  C4 (as amended). \<open>normalizeTasks\<close> returns exactly on the arrays all of whose records
  normalize: it throws a \<^verbatim>\<open>RangeError\<close> when a \<^verbatim>\<open>createdAt\<close> that is present is not read
  as a date by the runtime, or a date falls out of the range of \<^verbatim>\<open>Date\<close>. When it
  returns, every record that has no \<^verbatim>\<open>createdAt\<close> gets the timestamp of \<open>now\<close> less one
  day more than its index, whatever the other records are. These timestamps are
  strictly decreasing in the index: of two such records the one later in the array
  gets the earlier timestamp.
\<close>

theorem normalizeTasks_backdated:
  "((\<exists>out. normalizeTasks parse now genId input = Inr out)
      = (\<forall>i < length input. normalizes parse now i (input ! i)))
   \<and> (\<forall>out i j. normalizeTasks parse now genId input = Inr out
         \<and> i < length input \<and> \<not> truthy_opt (r_createdAt (input ! i)) \<longrightarrow>
         length out = length input
         \<and> toISOString (Some (now - (int i + 1) * msPerDay)) = Inr (createdAt (out ! i))
         \<and> (i < j \<longrightarrow> now - (int j + 1) * msPerDay < now - (int i + 1) * msPerDay))"
proof (intro conjI allI impI)
  show "(\<exists>out. normalizeTasks parse now genId input = Inr out)
      = (\<forall>i < length input. normalizes parse now i (input ! i))"
    by (rule normalizeTasks_returns)
next
  fix out i j
  assume h: "normalizeTasks parse now genId input = Inr out
         \<and> i < length input \<and> \<not> truthy_opt (r_createdAt (input ! i))"
  then have run: "map_from (normalize_one parse now genId) 0 input = Inr out"
    by (simp add: normalizeTasks_def)
  from map_from_nth [OF run] show "length out = length input"
    by simp
  from map_from_nth [OF run] h
  have "normalize_one parse now genId (input ! i) i = Inr (out ! i)" by simp
  then have iso: "toISOString (created_of parse now i (input ! i)) = Inr (createdAt (out ! i))"
    by (rule normalize_one_createdAt)
  then obtain t where "created_of parse now i (input ! i) = Some t"
    by (auto dest: toISOString_Inr)
  with h have "created_of parse now i (input ! i) = Some (now - (int i + 1) * msPerDay)"
    by (simp add: created_of_missing TimeClip_def split: if_splits)
  with iso show "toISOString (Some (now - (int i + 1) * msPerDay)) = Inr (createdAt (out ! i))"
    by simp
next
  fix i j :: nat
  assume "i < j"
  then show "now - (int j + 1) * msPerDay < now - (int i + 1) * msPerDay"
    by (simp add: msPerDay_def)
qed

theorem normalizeTasks_backdated_witness:
  "map_sum id (map createdAt)
       (normalizeTasks Date_parse 1704844800000 (\<lambda>i. ''gen'')
          [dated ''2024-01-01T00:00:00Z'', bare, bare])
     = Inr [''2024-01-01T00:00:00.000Z'', ''2024-01-08T00:00:00.000Z'',
            ''2024-01-07T00:00:00.000Z'']
   \<and> normalizes Date_parse 1704844800000 0 (dated ''2024-01-01T00:00:00Z'')
   \<and> normalizes Date_parse 1704844800000 1 bare
   \<and> normalizes Date_parse 1704844800000 2 bare
   \<and> toISOString (Some (1704844800000 - 2 * 86400000)) = Inr ''2024-01-08T00:00:00.000Z''
   \<and> toISOString (Some (1704844800000 - 3 * 86400000)) = Inr ''2024-01-07T00:00:00.000Z''
   \<and> (1704844800000 - 3 * 86400000 :: int) < 1704844800000 - 2 * 86400000
   \<and> normalizeTasks Date_parse 1704844800000 (\<lambda>i. ''gen'') [bare, dated ''yesterday'']
     = Inl RangeError
   \<and> \<not> normalizes Date_parse 1704844800000 1 (dated ''yesterday'')"
proof -
  let ?input = "[dated ''2024-01-01T00:00:00Z'', bare, bare]"
  have run: "map_sum id (map createdAt)
       (normalizeTasks Date_parse 1704844800000 (\<lambda>i. ''gen'') ?input)
     = Inr [''2024-01-01T00:00:00.000Z'', ''2024-01-08T00:00:00.000Z'',
            ''2024-01-07T00:00:00.000Z'']"
    by code_simp
  then obtain out
    where out: "normalizeTasks Date_parse 1704844800000 (\<lambda>i. ''gen'') ?input = Inr out"
      and stamps: "map createdAt out
       = [''2024-01-01T00:00:00.000Z'', ''2024-01-08T00:00:00.000Z'',
          ''2024-01-07T00:00:00.000Z'']"
    by (cases "normalizeTasks Date_parse 1704844800000 (\<lambda>i. ''gen'') ?input") auto
  have miss: "\<not> truthy_opt (r_createdAt bare)"
    by (simp add: bare_def truthy_opt_def)
  have thrown: "normalizeTasks Date_parse 1704844800000 (\<lambda>i. ''gen'') [bare, dated ''yesterday'']
      = Inl RangeError"
    by code_simp
  from stamps obtain a b c where abc: "out = [a, b, c]"
    by (auto simp: map_eq_Cons_conv)
  with stamps have nth: "createdAt (out ! 1) = ''2024-01-08T00:00:00.000Z''"
    "createdAt (out ! 2) = ''2024-01-07T00:00:00.000Z''"
    by simp_all
  from normalizeTasks_backdated [of Date_parse 1704844800000 "\<lambda>i. ''gen''" ?input] out
  have ret: "\<forall>i < 3. normalizes Date_parse 1704844800000 i (?input ! i)"
    and each: "\<And>i j. i < 3 \<Longrightarrow> \<not> truthy_opt (r_createdAt (?input ! i)) \<Longrightarrow>
         toISOString (Some (1704844800000 - (int i + 1) * msPerDay)) = Inr (createdAt (out ! i))
         \<and> (i < j \<longrightarrow> 1704844800000 - (int j + 1) * msPerDay
                        < 1704844800000 - (int i + 1) * msPerDay)"
    by auto
  from normalizeTasks_backdated [of Date_parse 1704844800000 "\<lambda>i. ''gen''"
      "[bare, dated ''yesterday'']"] thrown
  have "\<not> (\<forall>i < Suc (Suc 0).
           normalizes Date_parse 1704844800000 i ([bare, dated ''yesterday''] ! i))"
    by simp
  moreover have "normalizes Date_parse 1704844800000 0 bare"
    by (simp add: normalizes_def created_of_def bare_def TimeClip_def truthy_opt_def)
  ultimately have no: "\<not> normalizes Date_parse 1704844800000 1 (dated ''yesterday'')"
    by (simp add: All_less_Suc)
  from ret have r: "normalizes Date_parse 1704844800000 0 (dated ''2024-01-01T00:00:00Z'')"
    "normalizes Date_parse 1704844800000 1 bare" "normalizes Date_parse 1704844800000 2 bare"
    by (simp_all add: numeral_3_eq_3 numeral_2_eq_2 All_less_Suc)
  from each [of 1 2] each [of 2 3] miss nth
  have "toISOString (Some (1704844800000 - 2 * 86400000)) = Inr ''2024-01-08T00:00:00.000Z''"
    "toISOString (Some (1704844800000 - 3 * 86400000)) = Inr ''2024-01-07T00:00:00.000Z''"
    "(1704844800000 - 3 * 86400000 :: int) < 1704844800000 - 2 * 86400000"
    by (simp_all add: msPerDay_def)
  with run r thrown no show ?thesis
    by simp
qed

text \<open>
  C4 as stated fails in its second half: of two records without \<^verbatim>\<open>createdAt\<close> the first
  of the array gets the later timestamp, not the older one.
\<close>

theorem normalizeTasks_backdated_counterexample:
  "map_sum id (map createdAt) (normalizeTasks Date_parse 1704844800000 (\<lambda>i. ''gen'') [bare, bare])
     = Inr [''2024-01-09T00:00:00.000Z'', ''2024-01-08T00:00:00.000Z'']
   \<and> Date_parse ''2024-01-09T00:00:00.000Z'' = Some 1704758400000
   \<and> Date_parse ''2024-01-08T00:00:00.000Z'' = Some 1704672000000
   \<and> \<not> (1704758400000 < (1704672000000 :: int))"
  by code_simp

subsection \<open>Weekly throughput\<close>

text \<open>
  C1 fails on the code. The week number is written without padding, and the keys are
  sorted as strings: a task completed on 2024-01-10 (week 2) and one completed on
  2024-03-06 (week 10) come out with the week of March first.
\<close>

theorem throughput_not_chronological:
  "map week (computeThroughputByWeek exact
       [done_task ''a'' High ''2024-01-01T00:00:00.000Z'' ''2024-01-10T12:00:00.000Z'',
        done_task ''b'' High ''2024-01-01T00:00:00.000Z'' ''2024-03-06T12:00:00.000Z''])
     = [''2024-W10'', ''2024-W2'']
   \<and> Date_parse ''2024-01-10T12:00:00.000Z'' = Some 1704888000000
   \<and> Date_parse ''2024-03-06T12:00:00.000Z'' = Some 1709726400000"
  by code_simp

text \<open>
  The year of the key is the calendar year of the date, not the year the week belongs
  to: 2021-01-01 lies in week 53 of 2020 and gets the key \<^verbatim>\<open>2021-W53\<close>, behind a
  date of June 2021.
\<close>

lemma throughput_year_of_week:
  "map week (computeThroughputByWeek exact
       [done_task ''a'' High ''2020-12-01T00:00:00.000Z'' ''2021-01-01T12:00:00.000Z'',
        done_task ''b'' High ''2020-12-01T00:00:00.000Z'' ''2021-06-16T12:00:00.000Z''])
     = [''2021-W24'', ''2021-W53'']"
  by code_simp

text \<open>What does hold: the rows are in the order of their keys as strings.\<close>

lemma throughput_sorted_by_key:
  "sorted_wrt (\<lambda>a b. localeCompare (week a) (week b) \<le> 0) (computeThroughputByWeek rnd ts)"
proof -
  let ?cmp = "\<lambda>a b :: string \<times> int \<times> jsnum. Fin (of_int (localeCompare (fst a) (fst b)))"
  have gt: "js_gt (?cmp a b) (Fin 0) = (0 < localeCompare (fst a) (fst b))" for a b
    by simp
  have "sorted_wrt (\<lambda>a b. \<not> js_gt (?cmp a b) (Fin 0)) (Array_sort ?cmp (foldl (byWeek_step rnd) [] ts))"
  proof (rule sorted_Array_sort [where S = UNIV])
    fix a b :: "string \<times> int \<times> jsnum"
    assume "js_gt (?cmp a b) (Fin 0)"
    then show "\<not> js_gt (?cmp b a) (Fin 0)"
      using localeCompare_flip [of "fst a" "fst b"] by simp
  next
    fix a b c :: "string \<times> int \<times> jsnum"
    assume "\<not> js_gt (?cmp a b) (Fin 0)" "\<not> js_gt (?cmp b c) (Fin 0)"
    then show "\<not> js_gt (?cmp a c) (Fin 0)"
      using localeCompare_trans [of "fst a" "fst b" "fst c"] by simp
  qed simp
  then have "sorted_wrt (\<lambda>a b. localeCompare (fst a) (fst b) \<le> 0)
      (Array_sort ?cmp (foldl (byWeek_step rnd) [] ts))"
    by (simp add: not_less)
  then show ?thesis
    by (simp add: computeThroughputByWeek_def Let_def sorted_wrt_map case_prod_beta)
qed

subsection \<open>Velocity by priority\<close>

lemma js_sub_not_gt_le:
  "x \<noteq> NaN \<Longrightarrow> y \<noteq> NaN \<Longrightarrow> \<not> js_gt (js_sub y x) (Fin 0) \<Longrightarrow> js_le y x"
  by (cases x; cases y) auto

lemma groups_fold:
  "foldl (groups_push parse rnd) g ts k = g k @ bucket parse rnd k ts"
proof (induction ts arbitrary: g)
  case Nil
  then show ?case by (simp add: bucket_def List.map_filter_simps)
next
  case (Cons t ts)
  show ?case
  proof (cases "days_of parse rnd t")
    case None
    then have "groups_push parse rnd g t = g"
      by (auto simp: groups_push_def days_of_def split: option.splits if_splits)
    with None Cons.IH [of g] show ?thesis
      by (simp add: bucket_def List.map_filter_simps)
  next
    case (Some d)
    then have step: "groups_push parse rnd g t = g(priority t := g (priority t) @ [d])"
      by (auto simp: groups_push_def days_of_def split: option.splits if_splits)
    have ih: "foldl (groups_push parse rnd) (g(priority t := g (priority t) @ [d])) ts k
        = (g(priority t := g (priority t) @ [d])) k @ bucket parse rnd k ts"
      by (rule Cons.IH)
    have "foldl (groups_push parse rnd) g (t # ts) k
        = foldl (groups_push parse rnd) (g(priority t := g (priority t) @ [d])) ts k"
      by (simp add: step)
    also note ih
    also have "(g(priority t := g (priority t) @ [d])) k @ bucket parse rnd k ts
        = g k @ bucket parse rnd k (t # ts)"
      using Some by (cases "priority t = k") (simp_all add: bucket_def List.map_filter_simps)
    finally show ?thesis .
  qed
qed

lemma velocity_group:
  "computeVelocityByPriority srt parse rnd ts k = group_stats srt rnd (bucket parse rnd k ts)"
  by (simp add: computeVelocityByPriority_def Let_def groups_fold)

lemma engine_sort_numbers:
  assumes e: "engine_sort srt" and n: "\<forall>v \<in> set g. isFinite v"
  shows "sorted_wrt js_le (srt (\<lambda>a b. js_sub a b) g)"
proof -
  from n have "consistent (\<lambda>a b. js_sub a b) (set g)"
    by (rule consistent_sub)
  then have s: "sorted_wrt (\<lambda>a b. \<not> js_gt (js_sub a b) (Fin 0)) (srt (\<lambda>a b. js_sub a b) g)"
    by (rule engine_sort_sorted [OF e])
  show ?thesis
  proof (rule sorted_wrt_mono_rel [OF _ s])
    fix a b
    assume "a \<in> set (srt (\<lambda>a b. js_sub a b) g)" "b \<in> set (srt (\<lambda>a b. js_sub a b) g)"
      and le: "\<not> js_gt (js_sub a b) (Fin 0)"
    with n have "isFinite a" "isFinite b"
      by (auto simp: engine_sort_set [OF e])
    then have "a \<noteq> NaN" "b \<noteq> NaN" by auto
    with le show "js_le a b"
      by (intro js_sub_not_gt_le)
  qed
qed

text \<open>
  The days between two dates are a finite number, unless the quotient overflows; they
  are NaN when one of the two is not a date.
\<close>

lemma daysBetween_finite:
  assumes "parse a = Some x" and "parse b = Some y"
    and "rnd (of_int (y - x) / 86400000) \<noteq> None"
  shows "isFinite (daysBetween parse rnd a b)"
  using assms
  by (auto simp: daysBetween_def getTime_def js_round_def Math_max_def split: if_splits)

lemma daysBetween_NaN:
  assumes "parse a = None \<or> parse b = None"
  shows "daysBetween parse rnd a b = NaN"
proof -
  from assms have "js_sub (getTime (parse b)) (getTime (parse a)) = NaN"
    by (cases "parse b") (auto simp: getTime_def)
  then show ?thesis
    by (simp add: daysBetween_def Math_max_def)
qed

text \<open>
  C9 (as amended). Let \<open>srt\<close> be the sort of the engine, which does what the language
  asks of it. For every collection and priority, the array that the sort returns for
  the bucket is a permutation of the bucket, and ascending when every value of the
  bucket is finite (a value is NaN when a \<^verbatim>\<open>createdAt\<close> or \<^verbatim>\<open>completedAt\<close> is not a
  date, \<open>daysBetween_NaN\<close>). The reported \<open>medianDays\<close> of a bucket of length
  \<open>n > 0\<close> is the element at index \<open>n div 2\<close> of that array, which for an even \<open>n\<close> is
  the element after the lower median, the upper one of the two middle elements; an
  empty bucket gives \<open>avgDays\<close> 0 and \<open>medianDays\<close> 0.
\<close>

theorem velocity_median_index:
  assumes e: "engine_sort srt"
  shows "mset (srt (\<lambda>a b. js_sub a b) (bucket parse rnd k ts)) = mset (bucket parse rnd k ts)
   \<and> ((\<forall>v \<in> set (bucket parse rnd k ts). isFinite v) \<longrightarrow>
        sorted_wrt js_le (srt (\<lambda>a b. js_sub a b) (bucket parse rnd k ts)))
   \<and> (bucket parse rnd k ts \<noteq> [] \<longrightarrow>
        length (bucket parse rnd k ts) div 2 < length (bucket parse rnd k ts)
        \<and> medianDays (computeVelocityByPriority srt parse rnd ts k)
            = srt (\<lambda>a b. js_sub a b) (bucket parse rnd k ts)
                ! (length (bucket parse rnd k ts) div 2))
   \<and> (bucket parse rnd k ts \<noteq> [] \<and> even (length (bucket parse rnd k ts)) \<longrightarrow>
        medianDays (computeVelocityByPriority srt parse rnd ts k)
          = srt (\<lambda>a b. js_sub a b) (bucket parse rnd k ts)
              ! Suc ((length (bucket parse rnd k ts) - 1) div 2))
   \<and> (bucket parse rnd k ts = [] \<longrightarrow>
        avgDays (computeVelocityByPriority srt parse rnd ts k) = Fin 0
        \<and> medianDays (computeVelocityByPriority srt parse rnd ts k) = Fin 0)"
proof -
  let ?g = "bucket parse rnd k ts"
  let ?arr = "srt (\<lambda>a b. js_sub a b) ?g"
  have len: "length ?arr = length ?g"
    by (rule engine_sort_length [OF e])
  have ne: "(?arr \<noteq> []) = (?g \<noteq> [])"
    using len by (metis length_0_conv)
  have mid: "medianDays (computeVelocityByPriority srt parse rnd ts k)
      = (if ?g \<noteq> [] then ?arr ! (length ?g div 2) else Fin 0)"
    by (simp add: velocity_group group_stats_def Let_def ne len)
  have avg: "?g = [] \<Longrightarrow> avgDays (computeVelocityByPriority srt parse rnd ts k) = Fin 0"
    using ne by (simp add: velocity_group group_stats_def Let_def)
  have idx: "Suc ((length ?g - 1) div 2) = length ?g div 2" if "?g \<noteq> []" "even (length ?g)"
  proof -
    from that(2) obtain m where m: "length ?g = 2 * m"
      by (auto elim: evenE)
    with that(1) have "0 < m"
      by (cases m) auto
    with m show ?thesis
      by (cases m) auto
  qed
  show ?thesis
    using mid avg idx
    by (auto simp: engine_sort_mset [OF e] engine_sort_numbers [OF e])
qed

theorem velocity_median_index_witness:
  "bucket Date_parse exact High two_done = [Fin 1, Fin 2]
   \<and> isFinite (Fin 1) \<and> isFinite (Fin 2)
   \<and> Array_sort (\<lambda>a b. js_sub a b) (bucket Date_parse exact High two_done) = [Fin 1, Fin 2]
   \<and> medianDays (computeVelocityByPriority Array_sort Date_parse exact two_done High) = Fin 2
   \<and> bucket Date_parse exact Low two_done = []
   \<and> avgDays (computeVelocityByPriority Array_sort Date_parse exact two_done Low) = Fin 0
   \<and> medianDays (computeVelocityByPriority Array_sort Date_parse exact two_done Low) = Fin 0"
proof -
  have b: "bucket Date_parse exact High two_done = [Fin 1, Fin 2]"
    by code_simp
  have l: "bucket Date_parse exact Low two_done = []"
    by code_simp
  have s: "Array_sort (\<lambda>a b. js_sub a b) [Fin 1, Fin 2] = [Fin 1, Fin 2]"
    by simp
  from velocity_median_index [OF Array_sort_engine, of Date_parse exact High two_done]
    velocity_median_index [OF Array_sort_engine, of Date_parse exact Low two_done] b l s
  show ?thesis
    by simp
qed

text \<open>
  C9 as stated fails: on a bucket of two values, 1 day and 2 days, the lower median
  is 1 and the reported \<open>medianDays\<close> is 2.
\<close>

theorem velocity_median_index_counterexample:
  "bucket Date_parse exact High two_done = [Fin 1, Fin 2]
   \<and> Array_sort (\<lambda>a b. js_sub a b) (bucket Date_parse exact High two_done) = [Fin 1, Fin 2]
   \<and> lower_median (Array_sort (\<lambda>a b. js_sub a b) (bucket Date_parse exact High two_done)) = Fin 1
   \<and> medianDays (computeVelocityByPriority Array_sort Date_parse exact two_done High) = Fin 2
   \<and> medianDays (computeVelocityByPriority Array_sort Date_parse exact two_done High)
       \<noteq> lower_median (Array_sort (\<lambda>a b. js_sub a b) (bucket Date_parse exact High two_done))"
proof -
  have b: "bucket Date_parse exact High two_done = [Fin 1, Fin 2]"
    by code_simp
  have m: "medianDays (computeVelocityByPriority Array_sort Date_parse exact two_done High) = Fin 2"
    by code_simp
  show ?thesis
    by (simp add: b m lower_median_def)
qed

end
